theory Spec2Isabelle
  imports Main
begin

section \<open>The certloader Watcher (pkg/crypto/certloader/watcher.go)\<close>

text \<open>
  The Watcher keeps a FileReloader fresh: a background goroutine waits on filesystem
  notifications, arms one debounce timer per credential role, reloads when a timer
  fires, closes a ready channel once the store is ready, and returns when the stop
  channel is closed.

  The embedding is a transition system. A state is the Watcher struct together with the
  variables the goroutine of \<open>Watch\<close> closes over. One step is one case of the goroutine's
  \<open>select\<close>; whether a case can be taken is \<open>enabled\<close>, what its body does is \<open>step\<close>.
  What a reload reads from disk is not known to the Watcher, so it comes with the event
  that triggers the reload. Time is abstracted: a timer fires when its event occurs.
\<close>

subsection \<open>Values, logging, channels\<close>

type_synonym error = string

text \<open>A loaded certificate with its key, and a loaded pool of CA certificates.\<close>

type_synonym Certificate = string
type_synonym CertPool = "string list"

datatype level = Debug | Info | Warn

datatype attr = Path string | Operation nat | Error error | KeyPairSN string

type_synonym log_entry = "level \<times> string \<times> attr list"

text \<open>
  A channel that is only ever closed (\<open>chan struct{}\<close>): \<open>closes\<close> counts the calls of
  \<open>close\<close> that returned. Closing a closed channel panics.
\<close>

datatype panic = CloseOfClosedChannel

record chan =
  closes :: nat

definition make_chan :: chan where
  "make_chan = \<lparr>closes = 0\<rparr>"

definition is_closed :: "chan \<Rightarrow> bool" where
  "is_closed c = (0 < closes c)"

definition close_chan :: "chan \<Rightarrow> panic + chan" where
  "close_chan c =
     (if is_closed c then Inl CloseOfClosedChannel
      else Inr (c\<lparr>closes := Suc (closes c)\<rparr>))"

text \<open>
  A timer channel (\<open><-chan time.Time\<close>): nil, or the channel \<open>time.After d\<close> returned
  (\<open>d\<close> in milliseconds). A receive from a nil channel never proceeds.
\<close>

datatype timer = NilTimer | After nat

definition watcherEventCoalesceWindow :: nat where
  "watcherEventCoalesceWindow = 100"

subsection \<open>The File Event Source\<close>

record FsWatcher =
  trackFiles :: "string list"
  closeCalls :: nat

text \<open>
  Modelled from the spec: \<open>fswatcher.New\<close> and \<open>fswatcher.Watcher.Close\<close> are not in
  this file. The source is constructed from a flat set of paths; its construction can
  fail (a missing parent directory), which is the first argument here; \<open>Close\<close> releases
  its resources, counted in \<open>closeCalls\<close>.
\<close>

definition fswatcher_New :: "error option \<Rightarrow> string list \<Rightarrow> error + FsWatcher" where
  "fswatcher_New failure files =
     (case failure of
        Some err \<Rightarrow> Inl err
      | None \<Rightarrow> Inr \<lparr>trackFiles = files, closeCalls = 0\<rparr>)"

definition fswatcher_Close :: "FsWatcher \<Rightarrow> FsWatcher" where
  "fswatcher_Close f = f\<lparr>closeCalls := Suc (closeCalls f)\<rparr>"

definition newFsWatcher ::
  "error option \<Rightarrow> string list \<Rightarrow> string \<Rightarrow> string \<Rightarrow> error + FsWatcher" where
  "newFsWatcher failure caFiles' certFile' privkeyFile' =
     (let trackFiles0 = [];
          trackFiles1 = (if certFile' \<noteq> [] then trackFiles0 @ [certFile'] else trackFiles0);
          trackFiles2 = (if privkeyFile' \<noteq> [] then trackFiles1 @ [privkeyFile'] else trackFiles1);
          trackFiles3 = foldl (\<lambda>t path. if path \<noteq> [] then t @ [path] else t) trackFiles2 caFiles'
      in fswatcher_New failure trackFiles3)"

subsection \<open>The Credential Store\<close>

record FileReloader =
  caFiles :: "string list"
  certFile :: string
  privkeyFile :: string
  keypair :: "Certificate option"
  caCertPool :: "CertPool option"

text \<open>
  Modelled from the spec: the FileReloader (\<open>NewFileReloader\<close>, \<open>NewFileReloaderReady\<close>,
  \<open>ReloadKeypair\<close>, \<open>ReloadCA\<close>, \<open>Ready\<close>, \<open>keypairId\<close>) is not in this file. Per the
  store's contract, a reload re-reads the files and replaces the stored value on success;
  on failure it leaves the previous value untouched and returns the error. What the read
  gives is the first argument. \<open>Ready\<close> holds iff every configured role has been loaded
  (a role with no configured path counts as satisfied). The constructor's own check of
  its arguments is a parameter too. \<open>NewFileReloaderReady\<close> is the constructor that has
  read the files (NewWatcher's comment): it loads both roles and fails if a load fails.
  \<open>keypairId\<close> is the identity that is logged.
\<close>

definition NewFileReloader ::
  "error option \<Rightarrow> string list \<Rightarrow> string \<Rightarrow> string \<Rightarrow> error + FileReloader" where
  "NewFileReloader invalid caFiles' certFile' privkeyFile' =
     (case invalid of
        Some err \<Rightarrow> Inl err
      | None \<Rightarrow> Inr \<lparr>caFiles = caFiles', certFile = certFile', privkeyFile = privkeyFile',
                      keypair = None, caCertPool = None\<rparr>)"

definition ReloadKeypair ::
  "error + Certificate \<Rightarrow> 'a FileReloader_scheme
     \<Rightarrow> (error + Certificate) \<times> 'a FileReloader_scheme" where
  "ReloadKeypair read r =
     (case read of
        Inl err \<Rightarrow> (Inl err, r)
      | Inr kp \<Rightarrow> (Inr kp, r\<lparr>keypair := Some kp\<rparr>))"

definition ReloadCA ::
  "error + CertPool \<Rightarrow> 'a FileReloader_scheme
     \<Rightarrow> (error + CertPool) \<times> 'a FileReloader_scheme" where
  "ReloadCA read r =
     (case read of
        Inl err \<Rightarrow> (Inl err, r)
      | Inr pool \<Rightarrow> (Inr pool, r\<lparr>caCertPool := Some pool\<rparr>))"

definition HasKeypair :: "'a FileReloader_scheme \<Rightarrow> bool" where
  "HasKeypair r = (certFile r \<noteq> [] \<or> privkeyFile r \<noteq> [])"

definition HasCustomCA :: "'a FileReloader_scheme \<Rightarrow> bool" where
  "HasCustomCA r = (caFiles r \<noteq> [])"

definition Ready :: "'a FileReloader_scheme \<Rightarrow> bool" where
  "Ready r =
     ((if HasKeypair r then keypair r \<noteq> None else True) \<and>
      (if HasCustomCA r then caCertPool r \<noteq> None else True))"

definition NewFileReloaderReady ::
  "error option \<Rightarrow> error + Certificate \<Rightarrow> error + CertPool
     \<Rightarrow> string list \<Rightarrow> string \<Rightarrow> string \<Rightarrow> error + FileReloader" where
  "NewFileReloaderReady invalid readKeypair readCA caFiles' certFile' privkeyFile' =
     (case NewFileReloader invalid caFiles' certFile' privkeyFile' of
        Inl err \<Rightarrow> Inl err
      | Inr r \<Rightarrow>
          (case ReloadKeypair readKeypair r of
             (Inl err, _) \<Rightarrow> Inl err
           | (Inr _, r1) \<Rightarrow>
               (case ReloadCA readCA r1 of
                  (Inl err, _) \<Rightarrow> Inl err
                | (Inr _, r2) \<Rightarrow> Inr r2)))"

definition keypairId :: "Certificate \<Rightarrow> string" where
  "keypairId kp = kp"

subsection \<open>The Watcher and the state of its goroutine\<close>

text \<open>
  The struct embeds the FileReloader; \<open>log\<close> holds the records written through the
  logger.
\<close>

record Watcher = FileReloader +
  log :: "log_entry list"
  fswatcher :: FsWatcher
  stop :: chan

text \<open>
  What the goroutine of \<open>Watch\<close> closes over: the \<open>sync.Once\<close>, the ready channel, the
  two path maps (\<open>map[string]struct{}\<close>, a set), the two timer channels. \<open>exited\<close> says
  that the goroutine has returned; \<open>calls\<close> records, in order, its calls of
  \<open>time.After\<close> and of the reload operations.
\<close>

datatype call = TimeAfterKeypair | TimeAfterCA | CallReloadKeypair | CallReloadCA

record loop = Watcher +
  once :: bool
  ready :: chan
  keypairMap :: "string set"
  caMap :: "string set"
  keypairReload :: timer
  caReload :: timer
  exited :: bool
  calls :: "call list"

definition logf ::
  "level \<Rightarrow> string \<Rightarrow> attr list \<Rightarrow> 'a Watcher_scheme \<Rightarrow> 'a Watcher_scheme" where
  "logf lvl msg attrs w = w\<lparr>log := log w @ [(lvl, msg, attrs)]\<rparr>"

definition called :: "call \<Rightarrow> 'a loop_scheme \<Rightarrow> 'a loop_scheme" where
  "called c s = s\<lparr>calls := calls s @ [c]\<rparr>"

text \<open>\<open>markReady\<close>: \<open>once.Do(func() { close(ready) })\<close>.\<close>

definition markReady :: "'a loop_scheme \<Rightarrow> panic + 'a loop_scheme" where
  "markReady s =
     (if once s then Inr s
      else (case close_chan (ready s) of
              Inl p \<Rightarrow> Inl p
            | Inr c \<Rightarrow> Inr (s\<lparr>once := True, ready := c\<rparr>)))"

text \<open>
  \<open>Watch\<close> up to the start of the goroutine: the ready channel, the two maps, the nil
  timers. The channel it returns is the field \<open>ready\<close> of the state.
\<close>

definition Watch :: "Watcher \<Rightarrow> loop" where
  "Watch w =
     (let keypairMap0 = {};
          keypairMap1 = (if certFile w \<noteq> [] then insert (certFile w) keypairMap0 else keypairMap0);
          keypairMap2 = (if privkeyFile w \<noteq> [] then insert (privkeyFile w) keypairMap1 else keypairMap1);
          caMap1 = foldl (\<lambda>m path. insert path m) {} (caFiles w)
      in Watcher.extend w
           (loop.fields False make_chan keypairMap2 caMap1 NilTimer NilTimer False []))"

subsection \<open>The select loop\<close>

text \<open>The cases of the \<open>select\<close>, each with what it receives.\<close>

datatype event =
    FsEvent string nat
  | KeypairReloadFired "error + Certificate"
  | CaReloadFired "error + CertPool"
  | FsError error
  | StopObserved

text \<open>
  A case can be taken while the goroutine runs: a notification or an error when the
  source sends one, a timer case when its channel is not nil (and the timer has fired),
  the stop case when the stop channel is closed.
\<close>

fun enabled :: "'a loop_scheme \<Rightarrow> event \<Rightarrow> bool" where
  "enabled s (FsEvent path opn) = (\<not> exited s)"
| "enabled s (KeypairReloadFired read) = (\<not> exited s \<and> keypairReload s \<noteq> NilTimer)"
| "enabled s (CaReloadFired read) = (\<not> exited s \<and> caReload s \<noteq> NilTimer)"
| "enabled s (FsError err) = (\<not> exited s)"
| "enabled s StopObserved = (\<not> exited s \<and> is_closed (stop s))"

fun step :: "'a loop_scheme \<Rightarrow> event \<Rightarrow> panic + 'a loop_scheme" where
  "step s (FsEvent path opn) =
     (let s1 = logf Debug ''Received fswatcher event'' [Path path, Operation opn] s;
          keypairUpdated = (path \<in> keypairMap s1);
          caUpdated = (path \<in> caMap s1)
      in if keypairUpdated then
           (if keypairReload s1 = NilTimer
            then Inr (called TimeAfterKeypair
                        (s1\<lparr>keypairReload := After watcherEventCoalesceWindow\<rparr>))
            else Inr s1)
         else if caUpdated then
           (if caReload s1 = NilTimer
            then Inr (called TimeAfterCA
                        (s1\<lparr>caReload := After watcherEventCoalesceWindow\<rparr>))
            else Inr s1)
         else Inr (logf Warn ''Unknown file, ignoring.'' [Path path, Operation opn] s1))"
| "step s (KeypairReloadFired read) =
     (let s1 = s\<lparr>keypairReload := NilTimer\<rparr>
      in case ReloadKeypair read (called CallReloadKeypair s1) of
           (Inl err, s2) \<Rightarrow> Inr (logf Warn ''Keypair update failed'' [Error err] s2)
         | (Inr kp, s2) \<Rightarrow>
             (let s3 = logf Info ''Keypair updated'' [KeyPairSN (keypairId kp)] s2
              in if Ready s3 then markReady s3 else Inr s3))"
| "step s (CaReloadFired read) =
     (let s1 = s\<lparr>caReload := NilTimer\<rparr>
      in case ReloadCA read (called CallReloadCA s1) of
           (Inl err, s2) \<Rightarrow> Inr (logf Warn ''Certificate authority update failed'' [Error err] s2)
         | (Inr pool, s2) \<Rightarrow>
             (let s3 = logf Info ''Certificate authority updated'' [] s2
              in if Ready s3 then markReady s3 else Inr s3))"
| "step s (FsError err) = Inr (logf Warn ''fswatcher error'' [Error err] s)"
| "step s StopObserved =
     (let s1 = logf Info ''Stopping fswatcher'' [] s
      in Inr (s1\<lparr>fswatcher := fswatcher_Close (fswatcher s1), exited := True\<rparr>))"

subsection \<open>Stop, and runs of the whole Watcher\<close>

text \<open>
  \<open>Stop\<close>: a \<open>select\<close> with a default. \<open>Stop_select\<close> is the choice of the default
  branch (the stop channel is not closed), \<open>Stop_close\<close> the close in that branch.
\<close>

definition Stop_select :: "'a Watcher_scheme \<Rightarrow> bool" where
  "Stop_select w = (\<not> is_closed (stop w))"

definition Stop_close :: "'a Watcher_scheme \<Rightarrow> panic + 'a Watcher_scheme" where
  "Stop_close w =
     (case close_chan (stop w) of
        Inl p \<Rightarrow> Inl p
      | Inr c \<Rightarrow> Inr (w\<lparr>stop := c\<rparr>))"

definition Stop :: "'a Watcher_scheme \<Rightarrow> panic + 'a Watcher_scheme" where
  "Stop w = (if Stop_select w then Stop_close w else Inr w)"

text \<open>
  \<open>Stop\<close> takes no lock, so calls from several goroutines run their steps in any
  order. A call in progress is about to run its \<open>select\<close>, about to run the \<open>close\<close>
  of the default branch, or has returned; \<open>Stop_step\<close> is its next step. \<open>Stop_calls\<close>
  runs two calls on one Watcher, the list saying whose step comes next.
\<close>

datatype stop_pc = AtSelect | AtClose | Returned

fun Stop_step :: "'a Watcher_scheme \<Rightarrow> stop_pc \<Rightarrow> panic + ('a Watcher_scheme \<times> stop_pc)" where
  "Stop_step w AtSelect = Inr (w, if Stop_select w then AtClose else Returned)"
| "Stop_step w AtClose =
     (case Stop_close w of
        Inl p \<Rightarrow> Inl p
      | Inr w' \<Rightarrow> Inr (w', Returned))"
| "Stop_step w Returned = Inr (w, Returned)"

datatype caller = CallerA | CallerB

fun Stop_calls ::
  "'a Watcher_scheme \<Rightarrow> stop_pc \<Rightarrow> stop_pc \<Rightarrow> caller list
     \<Rightarrow> panic + ('a Watcher_scheme \<times> stop_pc \<times> stop_pc)" where
  "Stop_calls w a b [] = Inr (w, a, b)"
| "Stop_calls w a b (CallerA # cs) =
     (case Stop_step w a of
        Inl p \<Rightarrow> Inl p
      | Inr (w', a') \<Rightarrow> Stop_calls w' a' b cs)"
| "Stop_calls w a b (CallerB # cs) =
     (case Stop_step w b of
        Inl p \<Rightarrow> Inl p
      | Inr (w', b') \<Rightarrow> Stop_calls w' a b' cs)"

text \<open>
  An action of a run: the goroutine takes a case of its \<open>select\<close>, or some caller
  runs \<open>Stop\<close> from start to end, with no other call of \<open>Stop\<close> in between. \<open>exec\<close> gives \<open>None\<close> when the list asks for a case that
  cannot be taken, and the panic when one occurs.
\<close>

datatype action = Select event | CallStop

fun act :: "'a loop_scheme \<Rightarrow> action \<Rightarrow> (panic + 'a loop_scheme) option" where
  "act s (Select e) = (if enabled s e then Some (step s e) else None)"
| "act s CallStop = Some (Stop s)"

fun exec :: "'a loop_scheme \<Rightarrow> action list \<Rightarrow> (panic + 'a loop_scheme) option" where
  "exec s [] = Some (Inr s)"
| "exec s (a # as) =
     (case act s a of
        None \<Rightarrow> None
      | Some (Inl p) \<Rightarrow> Some (Inl p)
      | Some (Inr s') \<Rightarrow> exec s' as)"

subsection \<open>The constructors\<close>

text \<open>
  What a constructor finds when it runs: whether the FileReloader accepts the arguments,
  what reading the keypair and the CA files gives, whether the file event source can be
  created.
\<close>

record env =
  invalidArgs :: "error option"
  readKeypair :: "error + Certificate"
  readCA :: "error + CertPool"
  fswatcherFailure :: "error option"

text \<open>
  \<open>NewWatcher\<close> returns the Watcher with its goroutine started: the state of \<open>Watch\<close>.
\<close>

definition NewWatcher ::
  "env \<Rightarrow> log_entry list \<Rightarrow> string list \<Rightarrow> string \<Rightarrow> string \<Rightarrow> error + loop" where
  "NewWatcher env log0 caFiles' certFile' privkeyFile' =
     (case NewFileReloaderReady (invalidArgs env) (readKeypair env) (readCA env)
             caFiles' certFile' privkeyFile' of
        Inl err \<Rightarrow> Inl err
      | Inr r \<Rightarrow>
          (case newFsWatcher (fswatcherFailure env) caFiles' certFile' privkeyFile' of
             Inl err \<Rightarrow> Inl err
           | Inr fsw \<Rightarrow>
               Inr (Watch (FileReloader.extend r (Watcher.fields log0 fsw make_chan)))))"

text \<open>
  \<open>FutureWatcher\<close> starts a goroutine of its own, which holds the Watcher (\<open>watcher\<close>) and the
  result channel \<open>res\<close>. \<open>res\<close> lists what that goroutine has done on the channel;
  \<open>waiting\<close> says that it is blocked in its \<open>select\<close> on \<open>ready\<close> and \<open>w.stop\<close>.
  \<open>FutureWatcher\<close> gives the state in which the goroutine has either finished or reached
  that \<open>select\<close>.
\<close>

datatype res_op = SendWatcher | CloseRes

record future =
  watcher :: loop
  res :: "res_op list"
  waiting :: bool

definition FutureWatcher ::
  "env \<Rightarrow> log_entry list \<Rightarrow> string list \<Rightarrow> string \<Rightarrow> string \<Rightarrow> error + future" where
  "FutureWatcher env log0 caFiles' certFile' privkeyFile' =
     (case NewFileReloader (invalidArgs env) caFiles' certFile' privkeyFile' of
        Inl err \<Rightarrow> Inl err
      | Inr r \<Rightarrow>
          (case newFsWatcher (fswatcherFailure env) caFiles' certFile' privkeyFile' of
             Inl err \<Rightarrow> Inl err
           | Inr fsw \<Rightarrow>
               (let w0 = FileReloader.extend r (Watcher.fields log0 fsw make_chan);
                    (keypairRes, w1) = ReloadKeypair (readKeypair env) w0;
                    (caRes, w2) = ReloadCA (readCA env) w1;
                    l = Watch w2
                in if \<not> isl keypairRes \<and> \<not> isl caRes
                   then Inr \<lparr>watcher = logf Debug ''TLS configuration ready'' [] l,
                             res = [SendWatcher, CloseRes], waiting = False\<rparr>
                   else Inr \<lparr>watcher = logf Debug ''Waiting on fsnotify update to be ready'' [] l,
                             res = [], waiting = True\<rparr>)))"

text \<open>The two cases of the goroutine's \<open>select\<close>; the deferred \<open>close(res)\<close> ends both.\<close>

datatype await_case = ReadyCase | StopCase

fun await_enabled :: "future \<Rightarrow> await_case \<Rightarrow> bool" where
  "await_enabled f ReadyCase = (waiting f \<and> is_closed (ready (watcher f)))"
| "await_enabled f StopCase = (waiting f \<and> is_closed (stop (watcher f)))"

fun await :: "future \<Rightarrow> await_case \<Rightarrow> future" where
  "await f ReadyCase =
     f\<lparr>watcher := logf Debug ''TLS configuration ready'' [] (watcher f),
       res := res f @ [SendWatcher, CloseRes], waiting := False\<rparr>"
| "await f StopCase = f\<lparr>res := res f @ [CloseRes], waiting := False\<rparr>"

datatype faction = OfWatcher action | Await await_case

fun fact :: "future \<Rightarrow> faction \<Rightarrow> (panic + future) option" where
  "fact f (OfWatcher a) =
     (case act (watcher f) a of
        None \<Rightarrow> None
      | Some (Inl p) \<Rightarrow> Some (Inl p)
      | Some (Inr l) \<Rightarrow> Some (Inr (f\<lparr>watcher := l\<rparr>)))"
| "fact f (Await c) = (if await_enabled f c then Some (Inr (await f c)) else None)"

fun fexec :: "future \<Rightarrow> faction list \<Rightarrow> (panic + future) option" where
  "fexec f [] = Some (Inr f)"
| "fexec f (a # as) =
     (case fact f a of
        None \<Rightarrow> None
      | Some (Inl p) \<Rightarrow> Some (Inl p)
      | Some (Inr f') \<Rightarrow> fexec f' as)"

subsection \<open>Log records and example states used in the statements below\<close>

definition received :: "string \<Rightarrow> nat \<Rightarrow> log_entry" where
  "received path opn = (Debug, ''Received fswatcher event'', [Path path, Operation opn])"

definition unknown_file :: "string \<Rightarrow> nat \<Rightarrow> log_entry" where
  "unknown_file path opn = (Warn, ''Unknown file, ignoring.'', [Path path, Operation opn])"

text \<open>A notification as an action of a run.\<close>

definition notify :: "string \<times> nat \<Rightarrow> action" where
  "notify n = Select (FsEvent (fst n) (snd n))"

text \<open>Which actions are reloads that succeed.\<close>

fun keypair_loaded_by :: "action \<Rightarrow> bool" where
  "keypair_loaded_by (Select (KeypairReloadFired (Inr kp))) = True"
| "keypair_loaded_by a = False"

fun ca_loaded_by :: "action \<Rightarrow> bool" where
  "ca_loaded_by (Select (CaReloadFired (Inr pool))) = True"
| "ca_loaded_by a = False"

text \<open>
  A Watcher over a certificate, a key and one CA file, nothing loaded yet; the state
  \<open>Watch\<close> makes of it; and that state after a notification for each role.
\<close>

definition example_watcher :: Watcher where
  "example_watcher =
     \<lparr>caFiles = [''ca.crt''], certFile = ''tls.crt'', privkeyFile = ''tls.key'',
      keypair = None, caCertPool = None, log = [],
      fswatcher = \<lparr>trackFiles = [''tls.crt'', ''tls.key'', ''ca.crt''], closeCalls = 0\<rparr>,
      stop = make_chan\<rparr>"

definition example_loop :: loop where
  "example_loop =
     \<lparr>caFiles = [''ca.crt''], certFile = ''tls.crt'', privkeyFile = ''tls.key'',
      keypair = None, caCertPool = None, log = [],
      fswatcher = \<lparr>trackFiles = [''tls.crt'', ''tls.key'', ''ca.crt''], closeCalls = 0\<rparr>,
      stop = make_chan,
      once = False, ready = make_chan, keypairMap = {''tls.key'', ''tls.crt''},
      caMap = {''ca.crt''}, keypairReload = NilTimer, caReload = NilTimer,
      exited = False, calls = []\<rparr>"

definition example_armed :: loop where
  "example_armed =
     example_loop\<lparr>log := [received ''tls.crt'' 2, received ''ca.crt'' 2],
       keypairReload := After 100, caReload := After 100,
       calls := [TimeAfterKeypair, TimeAfterCA]\<rparr>"

text \<open>
  The invariant of the ready channel: it has been closed once if the \<open>sync.Once\<close> has run,
  and not at all otherwise.
\<close>

definition ready_inv :: "'a loop_scheme \<Rightarrow> bool" where
  "ready_inv s = (closes (ready s) = (if once s then 1 else 0))"

text \<open>The state after a reload that succeeded, before \<open>markReady\<close>.\<close>

abbreviation (input) keypair_loaded_state :: "'a loop_scheme \<Rightarrow> Certificate \<Rightarrow> 'a loop_scheme" where
  "keypair_loaded_state s kp \<equiv>
     s\<lparr>keypairReload := NilTimer, calls := calls s @ [CallReloadKeypair], keypair := Some kp,
       log := log s @ [(Info, ''Keypair updated'', [KeyPairSN (keypairId kp)])]\<rparr>"

abbreviation (input) ca_loaded_state :: "'a loop_scheme \<Rightarrow> CertPool \<Rightarrow> 'a loop_scheme" where
  "ca_loaded_state s pool \<equiv>
     s\<lparr>caReload := NilTimer, calls := calls s @ [CallReloadCA], caCertPool := Some pool,
       log := log s @ [(Info, ''Certificate authority updated'', [])]\<rparr>"

text \<open>
  The example Watcher with the keypair already loaded, as the goroutine of \<open>FutureWatcher\<close>
  leaves it when the CA files are not there yet; and with both roles loaded, as
  \<open>NewWatcher\<close> makes it. \<open>half_ready_fired\<close> is the first of them after a CA
  notification and a CA reload that succeeds.
\<close>

definition half_ready_watcher :: Watcher where
  "half_ready_watcher = example_watcher\<lparr>keypair := Some ''tls''\<rparr>"

definition loaded_watcher :: Watcher where
  "loaded_watcher = example_watcher\<lparr>keypair := Some ''tls'', caCertPool := Some [''ca'']\<rparr>"

definition half_ready_fired :: loop where
  "half_ready_fired =
     (Watch half_ready_watcher)
       \<lparr>caCertPool := Some [''ca''],
        log := [received ''ca.crt'' 2, (Info, ''Certificate authority updated'', [])],
        once := True, ready := \<lparr>closes = 1\<rparr>,
        calls := [TimeAfterCA, CallReloadCA]\<rparr>"

text \<open>What the constructors find: the CA file missing, and all files in place.\<close>

definition half_env :: env where
  "half_env = \<lparr>invalidArgs = None, readKeypair = Inr ''tls'',
                readCA = Inl ''open ca.crt: no such file'', fswatcherFailure = None\<rparr>"

definition loaded_env :: env where
  "loaded_env = \<lparr>invalidArgs = None, readKeypair = Inr ''tls'',
                  readCA = Inr [''ca''], fswatcherFailure = None\<rparr>"

text \<open>A Watcher whose certificate file is also listed as a CA file.\<close>

definition overlap_watcher :: Watcher where
  "overlap_watcher =
     \<lparr>caFiles = [''tls.crt''], certFile = ''tls.crt'', privkeyFile = ''tls.key'',
      keypair = None, caCertPool = None, log = [],
      fswatcher = \<lparr>trackFiles = [''tls.crt'', ''tls.key'', ''tls.crt''], closeCalls = 0\<rparr>,
      stop = make_chan\<rparr>"

text \<open>
  The goroutine of \<open>FutureWatcher\<close> waiting on the half-ready Watcher, after a call of
  \<open>Stop\<close>.
\<close>

definition stopped_future :: future where
  "stopped_future =
     \<lparr>watcher = (Watch half_ready_watcher)
         \<lparr>log := [(Debug, ''Waiting on fsnotify update to be ready'', [])],
          stop := \<lparr>closes = 1\<rparr>\<rparr>,
      res = [], waiting = True\<rparr>"

section \<open>Properties\<close>

subsection \<open>What each case of the select does\<close>

lemmas loop_defs = logf_def called_def markReady_def close_chan_def is_closed_def
  ReloadKeypair_def ReloadCA_def fswatcher_Close_def

lemma Ready_updates [simp]:
  "Ready (s\<lparr>log := a\<rparr>) = Ready s"
  "Ready (s\<lparr>fswatcher := b\<rparr>) = Ready s"
  "Ready (s\<lparr>stop := c\<rparr>) = Ready s"
  "Ready (l\<lparr>once := d\<rparr>) = Ready l"
  "Ready (l\<lparr>ready := e\<rparr>) = Ready l"
  "Ready (l\<lparr>keypairReload := f\<rparr>) = Ready l"
  "Ready (l\<lparr>caReload := g\<rparr>) = Ready l"
  "Ready (l\<lparr>exited := h\<rparr>) = Ready l"
  "Ready (l\<lparr>calls := i\<rparr>) = Ready l"
  by (simp_all add: Ready_def HasKeypair_def HasCustomCA_def)

lemma step_FsEvent_keypair:
  "path \<in> keypairMap s \<Longrightarrow>
   step s (FsEvent path opn) =
     Inr (if keypairReload s = NilTimer
          then s\<lparr>log := log s @ [received path opn],
                 keypairReload := After watcherEventCoalesceWindow,
                 calls := calls s @ [TimeAfterKeypair]\<rparr>
          else s\<lparr>log := log s @ [received path opn]\<rparr>)"
  by (simp add: loop_defs received_def)

lemma step_FsEvent_ca:
  "path \<notin> keypairMap s \<Longrightarrow> path \<in> caMap s \<Longrightarrow>
   step s (FsEvent path opn) =
     Inr (if caReload s = NilTimer
          then s\<lparr>log := log s @ [received path opn],
                 caReload := After watcherEventCoalesceWindow,
                 calls := calls s @ [TimeAfterCA]\<rparr>
          else s\<lparr>log := log s @ [received path opn]\<rparr>)"
  by (simp add: loop_defs received_def)

lemma step_FsEvent_unknown:
  "path \<notin> keypairMap s \<Longrightarrow> path \<notin> caMap s \<Longrightarrow>
   step s (FsEvent path opn) =
     Inr (s\<lparr>log := log s @ [received path opn, unknown_file path opn]\<rparr>)"
  by (simp add: loop_defs received_def unknown_file_def)

lemma step_keypair_failed:
  "step s (KeypairReloadFired (Inl err)) =
     Inr (s\<lparr>keypairReload := NilTimer, calls := calls s @ [CallReloadKeypair],
            log := log s @ [(Warn, ''Keypair update failed'', [Error err])]\<rparr>)"
  by (simp add: loop_defs)

lemma step_ca_failed:
  "step s (CaReloadFired (Inl err)) =
     Inr (s\<lparr>caReload := NilTimer, calls := calls s @ [CallReloadCA],
            log := log s @ [(Warn, ''Certificate authority update failed'', [Error err])]\<rparr>)"
  by (simp add: loop_defs)

lemma step_keypair_loaded:
  "step s (KeypairReloadFired (Inr kp)) =
     (let s3 = s\<lparr>keypairReload := NilTimer, calls := calls s @ [CallReloadKeypair],
                  keypair := Some kp,
                  log := log s @ [(Info, ''Keypair updated'', [KeyPairSN (keypairId kp)])]\<rparr>
      in if Ready s3 then markReady s3 else Inr s3)"
  by (simp add: logf_def called_def ReloadKeypair_def Let_def)

lemma step_ca_loaded:
  "step s (CaReloadFired (Inr pool)) =
     (let s3 = s\<lparr>caReload := NilTimer, calls := calls s @ [CallReloadCA],
                  caCertPool := Some pool,
                  log := log s @ [(Info, ''Certificate authority updated'', [])]\<rparr>
      in if Ready s3 then markReady s3 else Inr s3)"
  by (simp add: logf_def called_def ReloadCA_def Let_def)

lemma step_StopObserved:
  "step s StopObserved =
     Inr (s\<lparr>log := log s @ [(Info, ''Stopping fswatcher'', [])],
            fswatcher := (fswatcher s)\<lparr>closeCalls := Suc (closeCalls (fswatcher s))\<rparr>,
            exited := True\<rparr>)"
  by (simp add: loop_defs)

lemma step_FsError:
  "step s (FsError err) = Inr (s\<lparr>log := log s @ [(Warn, ''fswatcher error'', [Error err])]\<rparr>)"
  by (simp add: loop_defs)

declare step.simps [simp del]

lemma Watch_example: "Watch example_watcher = example_loop"
  by (simp add: Watch_def example_watcher_def example_loop_def Watcher.defs loop.defs)

lemma example_armed_reached:
  "exec (Watch example_watcher) [Select (FsEvent ''tls.crt'' 2), Select (FsEvent ''ca.crt'' 2)] =
     Some (Inr example_armed)"
  by (simp add: Watch_example example_armed_def example_loop_def step_FsEvent_keypair
      step_FsEvent_ca watcherEventCoalesceWindow_def)

subsection \<open>A reload that fails\<close>

text \<open>
  C5. When a timer fires and the reload returns an error, the goroutine logs the error
  at Warn and goes on: it has not returned, and the next notification can be taken. The
  role's timer channel is nil again and the only call made is the reload, so nothing is
  scheduled before the next notification. The ready channel and the \<open>sync.Once\<close> are
  untouched, and so are the stored keypair, the stored CA pool and \<open>Ready\<close>. The same
  holds for both roles.
\<close>

theorem failed_reload_continues:
  fixes s :: "'a loop_scheme"
  shows "(enabled s (KeypairReloadFired (Inl err)) \<longrightarrow>
           (\<exists>s'. step s (KeypairReloadFired (Inl err)) = Inr s' \<and> \<not> exited s' \<and>
              log s' = log s @ [(Warn, ''Keypair update failed'', [Error err])] \<and>
              calls s' = calls s @ [CallReloadKeypair] \<and>
              keypairReload s' = NilTimer \<and> caReload s' = caReload s \<and>
              ready s' = ready s \<and> once s' = once s \<and>
              keypair s' = keypair s \<and> caCertPool s' = caCertPool s \<and> Ready s' = Ready s \<and>
              (\<forall>path opn. enabled s' (FsEvent path opn)))) \<and>
         (enabled s (CaReloadFired (Inl err)) \<longrightarrow>
           (\<exists>s'. step s (CaReloadFired (Inl err)) = Inr s' \<and> \<not> exited s' \<and>
              log s' = log s @ [(Warn, ''Certificate authority update failed'', [Error err])] \<and>
              calls s' = calls s @ [CallReloadCA] \<and>
              caReload s' = NilTimer \<and> keypairReload s' = keypairReload s \<and>
              ready s' = ready s \<and> once s' = once s \<and>
              keypair s' = keypair s \<and> caCertPool s' = caCertPool s \<and> Ready s' = Ready s \<and>
              (\<forall>path opn. enabled s' (FsEvent path opn))))"
  by (simp add: step_keypair_failed step_ca_failed)

theorem failed_reload_continues_witness:
  "enabled example_armed (KeypairReloadFired (Inl ''no such file'')) \<and>
   enabled example_armed (CaReloadFired (Inl ''no such file'')) \<and>
   (\<exists>s'. step example_armed (KeypairReloadFired (Inl ''no such file'')) = Inr s' \<and>
      \<not> exited s' \<and> keypairReload s' = NilTimer \<and> once s' = once example_armed \<and>
      ready s' = ready example_armed \<and> Ready s' = Ready example_armed) \<and>
   (\<exists>s'. step example_armed (CaReloadFired (Inl ''no such file'')) = Inr s' \<and>
      \<not> exited s' \<and> caReload s' = NilTimer \<and> once s' = once example_armed \<and>
      ready s' = ready example_armed \<and> Ready s' = Ready example_armed)"
proof -
  have "enabled example_armed (KeypairReloadFired (Inl ''no such file''))"
    and "enabled example_armed (CaReloadFired (Inl ''no such file''))"
    by (simp_all add: example_armed_def example_loop_def)
  with failed_reload_continues [of example_armed "''no such file''"]
  show ?thesis by blast
qed

subsection \<open>One action, under the invariant of the ready channel\<close>

lemma step_FsEvent:
  "step s (FsEvent path opn) =
     Inr (if path \<in> keypairMap s then
            (if keypairReload s = NilTimer
             then s\<lparr>log := log s @ [received path opn],
                    keypairReload := After watcherEventCoalesceWindow,
                    calls := calls s @ [TimeAfterKeypair]\<rparr>
             else s\<lparr>log := log s @ [received path opn]\<rparr>)
          else if path \<in> caMap s then
            (if caReload s = NilTimer
             then s\<lparr>log := log s @ [received path opn],
                    caReload := After watcherEventCoalesceWindow,
                    calls := calls s @ [TimeAfterCA]\<rparr>
             else s\<lparr>log := log s @ [received path opn]\<rparr>)
          else s\<lparr>log := log s @ [received path opn, unknown_file path opn]\<rparr>)"
  by (simp add: step_FsEvent_keypair step_FsEvent_ca step_FsEvent_unknown)

lemma Stop_eq:
  "Stop s = Inr (if is_closed (stop s) then s else s\<lparr>stop := (stop s)\<lparr>closes := Suc (closes (stop s))\<rparr>\<rparr>)"
  by (simp add: Stop_def Stop_select_def Stop_close_def close_chan_def)

lemma markReady_eq:
  "ready_inv s \<Longrightarrow>
   markReady s = Inr (if once s then s else s\<lparr>once := True, ready := (ready s)\<lparr>closes := 1\<rparr>\<rparr>)"
  by (simp add: markReady_def close_chan_def is_closed_def ready_inv_def)

lemma act_cases [consumes 2, case_names Notify KeypairFailed KeypairLoaded CaFailed CaLoaded FsErr Stopped StopCall]:
  fixes s :: "'a loop_scheme"
  assumes "ready_inv s" and "act s a = Some r"
  obtains
    path opn where "a = Select (FsEvent path opn)" and "\<not> exited s"
      and "r = step s (FsEvent path opn)"
  | err where "a = Select (KeypairReloadFired (Inl err))" and "\<not> exited s"
      and "keypairReload s \<noteq> NilTimer"
      and "r = Inr (s\<lparr>keypairReload := NilTimer, calls := calls s @ [CallReloadKeypair],
            log := log s @ [(Warn, ''Keypair update failed'', [Error err])]\<rparr>)"
  | kp where "a = Select (KeypairReloadFired (Inr kp))" and "\<not> exited s"
      and "keypairReload s \<noteq> NilTimer"
      and "r = Inr (if \<not> once s \<and> Ready (s\<lparr>keypair := Some kp\<rparr>)
                    then (keypair_loaded_state s kp)\<lparr>once := True, ready := (ready s)\<lparr>closes := 1\<rparr>\<rparr>
                    else keypair_loaded_state s kp)"
  | err where "a = Select (CaReloadFired (Inl err))" and "\<not> exited s"
      and "caReload s \<noteq> NilTimer"
      and "r = Inr (s\<lparr>caReload := NilTimer, calls := calls s @ [CallReloadCA],
            log := log s @ [(Warn, ''Certificate authority update failed'', [Error err])]\<rparr>)"
  | pool where "a = Select (CaReloadFired (Inr pool))" and "\<not> exited s"
      and "caReload s \<noteq> NilTimer"
      and "r = Inr (if \<not> once s \<and> Ready (s\<lparr>caCertPool := Some pool\<rparr>)
                    then (ca_loaded_state s pool)\<lparr>once := True, ready := (ready s)\<lparr>closes := 1\<rparr>\<rparr>
                    else ca_loaded_state s pool)"
  | err where "a = Select (FsError err)" and "\<not> exited s"
      and "r = Inr (s\<lparr>log := log s @ [(Warn, ''fswatcher error'', [Error err])]\<rparr>)"
  | "a = Select StopObserved" and "\<not> exited s" and "is_closed (stop s)"
      and "r = Inr (s\<lparr>log := log s @ [(Info, ''Stopping fswatcher'', [])],
            fswatcher := (fswatcher s)\<lparr>closeCalls := Suc (closeCalls (fswatcher s))\<rparr>,
            exited := True\<rparr>)"
  | "a = CallStop"
      and "r = Inr (if is_closed (stop s) then s
                    else s\<lparr>stop := (stop s)\<lparr>closes := Suc (closes (stop s))\<rparr>\<rparr>)"
proof (cases a)
  case CallStop
  with assms(2) that(8) show ?thesis by (simp add: Stop_eq)
next
  case (Select e)
  note inv = assms(1)
  have en: "enabled s e" and r: "r = step s e"
    using assms(2) Select by (simp_all split: if_splits)
  have inv': "\<And>kp. ready_inv (keypair_loaded_state s kp)"
    "\<And>pool. ready_inv (ca_loaded_state s pool)"
    using inv by (simp_all add: ready_inv_def)
  have R: "\<And>kp. Ready (keypair_loaded_state s kp) = Ready (s\<lparr>keypair := Some kp\<rparr>)"
    "\<And>pool. Ready (ca_loaded_state s pool) = Ready (s\<lparr>caCertPool := Some pool\<rparr>)"
    by (simp_all add: Ready_def HasKeypair_def HasCustomCA_def)
  show ?thesis
  proof (cases e)
    case (FsEvent path opn)
    with en r Select that(1) show ?thesis by simp
  next
    case (KeypairReloadFired read)
    show ?thesis
    proof (cases read)
      case (Inl err)
      with en r Select KeypairReloadFired that(2) show ?thesis
        by (simp add: step_keypair_failed)
    next
      case (Inr kp)
      have "r = Inr (if \<not> once s \<and> Ready (s\<lparr>keypair := Some kp\<rparr>)
                    then (keypair_loaded_state s kp)\<lparr>once := True, ready := (ready s)\<lparr>closes := 1\<rparr>\<rparr>
                    else keypair_loaded_state s kp)"
        using r KeypairReloadFired Inr inv'(1)[of kp]
        by (simp add: step_keypair_loaded Let_def markReady_eq R del: Ready_updates)
      with en Select KeypairReloadFired Inr that(3)[of kp] show ?thesis by simp
    qed
  next
    case (CaReloadFired read)
    show ?thesis
    proof (cases read)
      case (Inl err)
      with en r Select CaReloadFired that(4) show ?thesis
        by (simp add: step_ca_failed)
    next
      case (Inr pool)
      have "r = Inr (if \<not> once s \<and> Ready (s\<lparr>caCertPool := Some pool\<rparr>)
                    then (ca_loaded_state s pool)\<lparr>once := True, ready := (ready s)\<lparr>closes := 1\<rparr>\<rparr>
                    else ca_loaded_state s pool)"
        using r CaReloadFired Inr inv'(2)[of pool]
        by (simp add: step_ca_loaded Let_def markReady_eq R del: Ready_updates)
      with en Select CaReloadFired Inr that(5)[of pool] show ?thesis by simp
    qed
  next
    case (FsError err)
    with en r Select that(6) show ?thesis by (simp add: step_FsError)
  next
    case StopObserved
    with en r Select that(7) show ?thesis by (simp add: step_StopObserved)
  qed
qed

lemmas store_defs = Ready_def HasKeypair_def HasCustomCA_def

lemma act_inv:
  fixes s :: "'a loop_scheme"
  assumes "ready_inv s" and "act s a = Some r"
  shows "\<exists>s'. r = Inr s' \<and> ready_inv s' \<and>
           caFiles s' = caFiles s \<and> certFile s' = certFile s \<and> privkeyFile s' = privkeyFile s \<and>
           keypairMap s' = keypairMap s \<and> caMap s' = caMap s"
  using assms assms(1)
  by (cases rule: act_cases) (simp_all add: step_FsEvent ready_inv_def)

lemma act_store:
  fixes s :: "'a loop_scheme"
  assumes "ready_inv s" and "act s a = Some (Inr s')"
  shows "(keypair s' \<noteq> None) = (keypair s \<noteq> None \<or> keypair_loaded_by a)"
    and "(caCertPool s' \<noteq> None) = (caCertPool s \<noteq> None \<or> ca_loaded_by a)"
    and "once s' = (once s \<or> ((keypair_loaded_by a \<or> ca_loaded_by a) \<and> Ready s'))"
  using assms assms(1)
  by (cases rule: act_cases; auto simp: step_FsEvent store_defs ready_inv_def split: if_splits)+

lemma act_stop:
  fixes s :: "'a loop_scheme"
  assumes "ready_inv s" and "act s a = Some (Inr s')"
  shows "closes (stop s') = (if a = CallStop \<and> closes (stop s) = 0 then 1 else closes (stop s))"
    and "closeCalls (fswatcher s') =
           (if a = Select StopObserved then Suc (closeCalls (fswatcher s)) else closeCalls (fswatcher s))"
    and "exited s' = (exited s \<or> a = Select StopObserved)"
    and "a = Select StopObserved \<Longrightarrow> is_closed (stop s) \<and> \<not> exited s"
  using assms
  by (cases rule: act_cases; auto simp: step_FsEvent is_closed_def split: if_splits)+

subsection \<open>Runs\<close>

lemma exec_append:
  "exec s (as @ bs) =
     (case exec s as of
        None \<Rightarrow> None
      | Some (Inl p) \<Rightarrow> Some (Inl p)
      | Some (Inr s') \<Rightarrow> exec s' bs)"
  by (induction as arbitrary: s) (auto split: option.splits sum.splits)

lemma exec_inv:
  fixes s :: "'a loop_scheme"
  shows "ready_inv s \<Longrightarrow> exec s as = Some r \<Longrightarrow>
    \<exists>s'. r = Inr s' \<and> ready_inv s' \<and>
           caFiles s' = caFiles s \<and> certFile s' = certFile s \<and> privkeyFile s' = privkeyFile s \<and>
           keypairMap s' = keypairMap s \<and> caMap s' = caMap s"
proof (induction as arbitrary: s)
  case Nil
  then show ?case by auto
next
  case (Cons a as)
  from Cons.prems obtain r1 where a: "act s a = Some r1"
    by (auto split: option.splits)
  with act_inv [OF Cons.prems(1) a] obtain s1 where s1: "r1 = Inr s1" "ready_inv s1"
    "caFiles s1 = caFiles s" "certFile s1 = certFile s" "privkeyFile s1 = privkeyFile s"
    "keypairMap s1 = keypairMap s" "caMap s1 = caMap s"
    by blast
  with Cons.prems a have "exec s1 as = Some r" by simp
  from Cons.IH [OF s1(2) this] s1 show ?case by auto
qed

lemma foldl_insert: "foldl (\<lambda>m path. insert path m) A xs = A \<union> set xs"
  by (induction xs arbitrary: A) auto

lemma Watch_eq:
  "Watch w =
     \<lparr>caFiles = caFiles w, certFile = certFile w, privkeyFile = privkeyFile w,
      keypair = keypair w, caCertPool = caCertPool w, log = log w,
      fswatcher = fswatcher w, stop = stop w, once = False, ready = \<lparr>closes = 0\<rparr>,
      keypairMap = {p. p \<noteq> [] \<and> (p = certFile w \<or> p = privkeyFile w)},
      caMap = set (caFiles w), keypairReload = NilTimer, caReload = NilTimer,
      exited = False, calls = []\<rparr>"
  by (auto simp: Watch_def Watcher.defs loop.defs make_chan_def Let_def foldl_insert)

lemma Watch_inv: "ready_inv (Watch w)"
  by (simp add: ready_inv_def Watch_eq)

lemma exec_snoc:
  assumes "exec s (as @ [a]) = Some r"
  obtains (panicked) p where "exec s as = Some (Inl p)" and "r = Inl p"
  | (stepped) s1 where "exec s as = Some (Inr s1)" and "act s1 a = Some r"
  using assms by (auto simp: exec_append split: option.splits sum.splits)

lemma Ready_iff:
  "Ready s = ((HasKeypair s \<longrightarrow> keypair s \<noteq> None) \<and> (HasCustomCA s \<longrightarrow> caCertPool s \<noteq> None))"
  by (simp add: Ready_def)

lemma Has_cong:
  "caFiles s' = caFiles s \<Longrightarrow> certFile s' = certFile s \<Longrightarrow> privkeyFile s' = privkeyFile s \<Longrightarrow>
   HasKeypair s' = HasKeypair s \<and> HasCustomCA s' = HasCustomCA s"
  by (simp add: HasKeypair_def HasCustomCA_def)

lemma list_ex_snoc: "list_ex P (xs @ [x]) = (list_ex P xs \<or> P x)"
  by simp

lemma exec_Watch_ready:
  assumes "exec (Watch w) as = Some r"
  shows "\<exists>s. r = Inr s \<and> ready_inv s \<and>
           caFiles s = caFiles w \<and> certFile s = certFile w \<and> privkeyFile s = privkeyFile w \<and>
           (keypair s \<noteq> None) = (keypair w \<noteq> None \<or> list_ex keypair_loaded_by as) \<and>
           (caCertPool s \<noteq> None) = (caCertPool w \<noteq> None \<or> list_ex ca_loaded_by as) \<and>
           once s = ((list_ex keypair_loaded_by as \<or> list_ex ca_loaded_by as) \<and> Ready s)"
  using assms
proof (induction as arbitrary: r rule: rev_induct)
  case Nil
  then have "r = Inr (Watch w)" by simp
  moreover have "\<not> once (Watch w)" "caFiles (Watch w) = caFiles w" "certFile (Watch w) = certFile w"
    "privkeyFile (Watch w) = privkeyFile w" "keypair (Watch w) = keypair w"
    "caCertPool (Watch w) = caCertPool w"
    by (simp_all add: Watch_eq)
  ultimately show ?case using Watch_inv [of w] by simp
next
  case (snoc a as)
  from snoc.prems show ?case
  proof (cases rule: exec_snoc)
    case (panicked p)
    with snoc.IH [OF panicked(1)] show ?thesis by simp
  next
    case (stepped s1)
    from snoc.IH [OF stepped(1)] have inv1: "ready_inv s1"
      and cfg1: "caFiles s1 = caFiles w" "certFile s1 = certFile w" "privkeyFile s1 = privkeyFile w"
      and k1: "(keypair s1 \<noteq> None) = (keypair w \<noteq> None \<or> list_ex keypair_loaded_by as)"
      and c1: "(caCertPool s1 \<noteq> None) = (caCertPool w \<noteq> None \<or> list_ex ca_loaded_by as)"
      and o1: "once s1 = ((list_ex keypair_loaded_by as \<or> list_ex ca_loaded_by as) \<and> Ready s1)"
      by blast+
    from act_inv [OF inv1 stepped(2)] obtain s' where r: "r = Inr s'" and inv': "ready_inv s'"
      and cfg': "caFiles s' = caFiles s1" "certFile s' = certFile s1" "privkeyFile s' = privkeyFile s1"
      by blast
    from stepped(2) r have a: "act s1 a = Some (Inr s')" by simp
    note st = act_store [OF inv1 a]
    have H: "HasKeypair s' = HasKeypair s1" "HasCustomCA s' = HasCustomCA s1"
      using Has_cong [OF cfg'] by blast+
    have k': "(keypair s' \<noteq> None) = (keypair w \<noteq> None \<or> list_ex keypair_loaded_by (as @ [a]))"
      unfolding list_ex_snoc st(1) k1 by blast
    have c': "(caCertPool s' \<noteq> None) = (caCertPool w \<noteq> None \<or> list_ex ca_loaded_by (as @ [a]))"
      unfolding list_ex_snoc st(2) c1 by blast
    have o': "once s' = ((list_ex keypair_loaded_by (as @ [a]) \<or> list_ex ca_loaded_by (as @ [a])) \<and> Ready s')"
      unfolding list_ex_snoc using st(3) o1 st(1) st(2) H Ready_iff [of s'] Ready_iff [of s1]
      by blast
    from r inv' cfg' cfg1 k' c' o' show ?thesis by metis
  qed
qed

subsection \<open>The constructors, computed\<close>

lemma newFsWatcher_eq:
  "newFsWatcher failure caFiles' certFile' privkeyFile' =
     (case failure of
        Some err \<Rightarrow> Inl err
      | None \<Rightarrow> Inr \<lparr>trackFiles = (if certFile' \<noteq> [] then [certFile'] else []) @
                         (if privkeyFile' \<noteq> [] then [privkeyFile'] else []) @
                         filter (\<lambda>path. path \<noteq> []) caFiles',
                      closeCalls = 0\<rparr>)"
proof -
  have "foldl (\<lambda>t path. if path \<noteq> [] then t @ [path] else t) xs ys = xs @ filter (\<lambda>path. path \<noteq> []) ys"
    for xs ys :: "string list"
    by (induction ys arbitrary: xs) auto
  then show ?thesis
    by (simp add: newFsWatcher_def fswatcher_New_def Let_def split: option.splits)
qed

lemma FutureWatcher_half_ready:
  "FutureWatcher half_env [] [''ca.crt''] ''tls.crt'' ''tls.key'' =
     Inr \<lparr>watcher = logf Debug ''Waiting on fsnotify update to be ready'' [] (Watch half_ready_watcher),
          res = [], waiting = True\<rparr>"
  by (simp add: FutureWatcher_def half_env_def NewFileReloader_def newFsWatcher_eq
      ReloadKeypair_def ReloadCA_def half_ready_watcher_def example_watcher_def
      FileReloader.defs Watcher.defs)

lemma NewWatcher_loaded:
  "NewWatcher loaded_env [] [''ca.crt''] ''tls.crt'' ''tls.key'' = Inr (Watch loaded_watcher)"
  by (simp add: NewWatcher_def loaded_env_def NewFileReloaderReady_def NewFileReloader_def
      newFsWatcher_eq ReloadKeypair_def ReloadCA_def loaded_watcher_def example_watcher_def
      FileReloader.defs Watcher.defs)

lemma FutureWatcher_eq:
  "FutureWatcher env log0 caFiles' certFile' privkeyFile' =
     (case invalidArgs env of
        Some err \<Rightarrow> Inl err
      | None \<Rightarrow>
          (case newFsWatcher (fswatcherFailure env) caFiles' certFile' privkeyFile' of
             Inl err \<Rightarrow> Inl err
           | Inr fsw \<Rightarrow>
               (let w0 = \<lparr>caFiles = caFiles', certFile = certFile', privkeyFile = privkeyFile',
                          keypair = (case readKeypair env of Inl err \<Rightarrow> None | Inr kp \<Rightarrow> Some kp),
                          caCertPool = (case readCA env of Inl err \<Rightarrow> None | Inr pool \<Rightarrow> Some pool),
                          log = log0, fswatcher = fsw, stop = make_chan\<rparr>
                in if \<not> isl (readKeypair env) \<and> \<not> isl (readCA env)
                   then Inr \<lparr>watcher = (Watch w0)\<lparr>log := log0 @ [(Debug, ''TLS configuration ready'', [])]\<rparr>,
                             res = [SendWatcher, CloseRes], waiting = False\<rparr>
                   else Inr \<lparr>watcher = (Watch w0)\<lparr>log := log0 @
                               [(Debug, ''Waiting on fsnotify update to be ready'', [])]\<rparr>,
                             res = [], waiting = True\<rparr>)))"
  by (cases "readKeypair env"; cases "readCA env")
     (simp_all add: FutureWatcher_def NewFileReloader_def ReloadKeypair_def ReloadCA_def
        FileReloader.defs Watcher.defs logf_def Watch_eq Let_def
        split: option.splits sum.splits)

text \<open>Rules that evaluate a run of an example.\<close>

lemmas eval_simps = Watch_eq example_watcher_def step_FsEvent step_keypair_loaded step_ca_loaded
  step_keypair_failed step_ca_failed step_StopObserved step_FsError Stop_eq
  markReady_def close_chan_def is_closed_def make_chan_def Let_def store_defs
  watcherEventCoalesceWindow_def

subsection \<open>The ready channel\<close>

text \<open>
  C1, as amended. No run of the Watcher panics, and the ready channel that \<open>Watch\<close> returns
  is closed at most once. After a run it is closed exactly once iff some reload of the run
  succeeded and every configured role is loaded, by a successful reload of the run or
  before \<open>Watch\<close> started (the eager reloads of \<open>FutureWatcher\<close>, the constructor of
  \<open>NewWatcher\<close>). For a Watcher with both roles configured and nothing loaded when \<open>Watch\<close>
  starts this is: iff both roles have succeeded at least once.
\<close>

theorem ready_fires_once:
  assumes "exec (Watch w) as = Some r"
  shows "\<exists>s. r = Inr s \<and> closes (ready s) \<le> 1 \<and>
           (closes (ready s) = 1) =
             ((list_ex keypair_loaded_by as \<or> list_ex ca_loaded_by as) \<and>
              (HasKeypair w \<longrightarrow> keypair w \<noteq> None \<or> list_ex keypair_loaded_by as) \<and>
              (HasCustomCA w \<longrightarrow> caCertPool w \<noteq> None \<or> list_ex ca_loaded_by as)) \<and>
           (HasKeypair w \<and> HasCustomCA w \<and> keypair w = None \<and> caCertPool w = None \<longrightarrow>
              (closes (ready s) = 1) = (list_ex keypair_loaded_by as \<and> list_ex ca_loaded_by as))"
proof -
  from exec_Watch_ready [OF assms] obtain s where r: "r = Inr s" and inv: "ready_inv s"
    and cfg: "caFiles s = caFiles w" "certFile s = certFile w" "privkeyFile s = privkeyFile w"
    and k: "(keypair s \<noteq> None) = (keypair w \<noteq> None \<or> list_ex keypair_loaded_by as)"
    and c: "(caCertPool s \<noteq> None) = (caCertPool w \<noteq> None \<or> list_ex ca_loaded_by as)"
    and o: "once s = ((list_ex keypair_loaded_by as \<or> list_ex ca_loaded_by as) \<and> Ready s)"
    by blast
  have H: "HasKeypair s = HasKeypair w" "HasCustomCA s = HasCustomCA w"
    using Has_cong [OF cfg] by blast+
  have le: "closes (ready s) \<le> 1" and eq: "(closes (ready s) = 1) = once s"
    using inv by (simp_all add: ready_inv_def)
  have main: "(closes (ready s) = 1) =
             ((list_ex keypair_loaded_by as \<or> list_ex ca_loaded_by as) \<and>
              (HasKeypair w \<longrightarrow> keypair w \<noteq> None \<or> list_ex keypair_loaded_by as) \<and>
              (HasCustomCA w \<longrightarrow> caCertPool w \<noteq> None \<or> list_ex ca_loaded_by as))"
    unfolding eq o Ready_iff [of s] H k c by blast
  have "HasKeypair w \<and> HasCustomCA w \<and> keypair w = None \<and> caCertPool w = None \<longrightarrow>
              (closes (ready s) = 1) = (list_ex keypair_loaded_by as \<and> list_ex ca_loaded_by as)"
    unfolding main by auto
  with r le main show ?thesis by blast
qed

theorem ready_fires_once_witness:
  "\<exists>s. exec (Watch example_watcher)
          [Select (FsEvent ''tls.key'' 2), Select (KeypairReloadFired (Inr ''tls'')),
           Select (FsEvent ''ca.crt'' 2), Select (CaReloadFired (Inr [''ca''])),
           Select (FsEvent ''tls.crt'' 2), Select (KeypairReloadFired (Inr ''tls2''))] = Some (Inr s) \<and>
        closes (ready s) = 1"
proof -
  let ?as = "[Select (FsEvent ''tls.key'' 2), Select (KeypairReloadFired (Inr ''tls'')),
           Select (FsEvent ''ca.crt'' 2), Select (CaReloadFired (Inr [''ca''])),
           Select (FsEvent ''tls.crt'' 2), Select (KeypairReloadFired (Inr ''tls2''))]"
  obtain r where e: "exec (Watch example_watcher) ?as = Some r"
    by (simp add: eval_simps)
  from ready_fires_once [OF e] obtain s where r: "r = Inr s"
    and "(closes (ready s) = 1) =
             ((list_ex keypair_loaded_by ?as \<or> list_ex ca_loaded_by ?as) \<and>
              (HasKeypair example_watcher \<longrightarrow> keypair example_watcher \<noteq> None \<or> list_ex keypair_loaded_by ?as) \<and>
              (HasCustomCA example_watcher \<longrightarrow> caCertPool example_watcher \<noteq> None \<or> list_ex ca_loaded_by ?as))"
    by blast
  then have "closes (ready s) = 1" by simp
  with e r show ?thesis by blast
qed

text \<open>
  The statement without the amendment fails both ways. With the keypair loaded before
  \<open>Watch\<close> starts, one successful CA reload closes the ready channel although no keypair
  reload of the run has succeeded. With both roles loaded before \<open>Watch\<close> starts and no
  reload in the run, both roles have succeeded and the ready channel is still open. The
  first Watcher is the one \<open>FutureWatcher\<close> makes when the CA file is missing
  (\<open>FutureWatcher_half_ready\<close>), the second the one \<open>NewWatcher\<close> returns
  (\<open>NewWatcher_loaded\<close>).
\<close>

theorem ready_fires_once_counterexample:
  "exec (Watch half_ready_watcher)
     [Select (FsEvent ''ca.crt'' 2), Select (CaReloadFired (Inr [''ca'']))] =
     Some (Inr half_ready_fired) \<and>
   closes (ready half_ready_fired) = 1 \<and>
   \<not> list_ex keypair_loaded_by
       [Select (FsEvent ''ca.crt'' 2), Select (CaReloadFired (Inr [''ca'']))] \<and>
   exec (Watch loaded_watcher) [] = Some (Inr (Watch loaded_watcher)) \<and>
   keypair (Watch loaded_watcher) = Some ''tls'' \<and>
   caCertPool (Watch loaded_watcher) = Some [''ca''] \<and>
   closes (ready (Watch loaded_watcher)) = 0"
  by (simp add: half_ready_fired_def half_ready_watcher_def loaded_watcher_def eval_simps)

subsection \<open>Coalescing\<close>

lemma reachable_inv:
  "exec (Watch w) pre = Some (Inr s) \<Longrightarrow> ready_inv s"
  using exec_inv [OF Watch_inv, of w pre "Inr s"] by simp

lemma burst_keypair:
  fixes s :: "'a loop_scheme"
  assumes "\<not> exited s" and "\<forall>n\<in>set ns. fst n \<in> keypairMap s"
  shows "exec s (map notify ns) =
           Some (Inr (if ns = [] \<or> keypairReload s \<noteq> NilTimer
                      then s\<lparr>log := log s @ map (\<lambda>n. received (fst n) (snd n)) ns\<rparr>
                      else s\<lparr>log := log s @ map (\<lambda>n. received (fst n) (snd n)) ns,
                             keypairReload := After watcherEventCoalesceWindow,
                             calls := calls s @ [TimeAfterKeypair]\<rparr>))"
  using assms
proof (induction ns arbitrary: s)
  case Nil
  then show ?case by simp
next
  case (Cons n ns)
  let ?s1 = "if keypairReload s = NilTimer
          then s\<lparr>log := log s @ [received (fst n) (snd n)],
                 keypairReload := After watcherEventCoalesceWindow,
                 calls := calls s @ [TimeAfterKeypair]\<rparr>
          else s\<lparr>log := log s @ [received (fst n) (snd n)]\<rparr>"
  have a: "act s (notify n) = Some (Inr ?s1)"
    using Cons.prems by (simp add: notify_def step_FsEvent_keypair)
  have "\<not> exited ?s1" "\<forall>n\<in>set ns. fst n \<in> keypairMap ?s1" "keypairReload ?s1 \<noteq> NilTimer"
    using Cons.prems by simp_all
  from Cons.IH [OF this(1,2)] this(3)
  have "exec ?s1 (map notify ns) =
          Some (Inr (?s1\<lparr>log := log ?s1 @ map (\<lambda>n. received (fst n) (snd n)) ns\<rparr>))"
    by simp
  with a show ?case by simp
qed

lemma burst_ca:
  fixes s :: "'a loop_scheme"
  assumes "\<not> exited s" and "\<forall>n\<in>set ns. fst n \<notin> keypairMap s \<and> fst n \<in> caMap s"
  shows "exec s (map notify ns) =
           Some (Inr (if ns = [] \<or> caReload s \<noteq> NilTimer
                      then s\<lparr>log := log s @ map (\<lambda>n. received (fst n) (snd n)) ns\<rparr>
                      else s\<lparr>log := log s @ map (\<lambda>n. received (fst n) (snd n)) ns,
                             caReload := After watcherEventCoalesceWindow,
                             calls := calls s @ [TimeAfterCA]\<rparr>))"
  using assms
proof (induction ns arbitrary: s)
  case Nil
  then show ?case by simp
next
  case (Cons n ns)
  let ?s1 = "if caReload s = NilTimer
          then s\<lparr>log := log s @ [received (fst n) (snd n)],
                 caReload := After watcherEventCoalesceWindow,
                 calls := calls s @ [TimeAfterCA]\<rparr>
          else s\<lparr>log := log s @ [received (fst n) (snd n)]\<rparr>"
  have a: "act s (notify n) = Some (Inr ?s1)"
    using Cons.prems by (simp add: notify_def step_FsEvent_ca)
  have "\<not> exited ?s1" "\<forall>n\<in>set ns. fst n \<notin> keypairMap ?s1 \<and> fst n \<in> caMap ?s1"
    "caReload ?s1 \<noteq> NilTimer"
    using Cons.prems by simp_all
  from Cons.IH [OF this(1,2)] this(3)
  have "exec ?s1 (map notify ns) =
          Some (Inr (?s1\<lparr>log := log ?s1 @ map (\<lambda>n. received (fst n) (snd n)) ns\<rparr>))"
    by simp
  with a show ?case by simp
qed

lemma fire_keypair:
  fixes s :: "'a loop_scheme"
  assumes "ready_inv s" and "\<not> exited s" and "keypairReload s \<noteq> NilTimer"
  shows "\<exists>s'. exec s [Select (KeypairReloadFired read)] = Some (Inr s') \<and>
           calls s' = calls s @ [CallReloadKeypair] \<and> keypairReload s' = NilTimer \<and>
           caReload s' = caReload s \<and> \<not> exited s'"
proof -
  obtain r where a: "act s (Select (KeypairReloadFired read)) = Some r"
    using assms by simp
  from assms(1) a show ?thesis
    by (cases rule: act_cases) (use a in \<open>auto split: if_splits\<close>)
qed

lemma fire_ca:
  fixes s :: "'a loop_scheme"
  assumes "ready_inv s" and "\<not> exited s" and "caReload s \<noteq> NilTimer"
  shows "\<exists>s'. exec s [Select (CaReloadFired read)] = Some (Inr s') \<and>
           calls s' = calls s @ [CallReloadCA] \<and> caReload s' = NilTimer \<and>
           keypairReload s' = keypairReload s \<and> \<not> exited s'"
proof -
  obtain r where a: "act s (Select (CaReloadFired read)) = Some r"
    using assms by simp
  from assms(1) a show ?thesis
    by (cases rule: act_cases) (use a in \<open>auto split: if_splits\<close>)
qed

text \<open>
  C2. In any state the Watcher can reach, with the goroutine running and the role's timer
  channel nil, \<open>N \<ge> 1\<close> notifications for paths of one role, taken before the timer
  fires, make exactly one call of \<open>time.After\<close>: the first notification arms the timer,
  the later ones find it armed and only log. When the timer then fires, whatever the
  reload returns, exactly one reload of that role has been called and the timer channel is
  nil again. A path's role is the one the \<open>select\<close> gives it: keypair when it is in
  \<open>keypairMap\<close>, CA when it is in \<open>caMap\<close> and not in \<open>keypairMap\<close>.
\<close>

theorem burst_coalesced:
  assumes "exec (Watch w) pre = Some (Inr s)" and "\<not> exited s" and "ns \<noteq> []"
  shows "(keypairReload s = NilTimer \<and> (\<forall>n\<in>set ns. fst n \<in> keypairMap s) \<longrightarrow>
            (\<exists>s1. exec s (map notify ns) = Some (Inr s1) \<and>
               calls s1 = calls s @ [TimeAfterKeypair] \<and>
               keypairReload s1 = After watcherEventCoalesceWindow \<and>
               (\<forall>read. \<exists>s2. exec s1 [Select (KeypairReloadFired read)] = Some (Inr s2) \<and>
                  calls s2 = calls s @ [TimeAfterKeypair, CallReloadKeypair] \<and>
                  keypairReload s2 = NilTimer))) \<and>
         (caReload s = NilTimer \<and> (\<forall>n\<in>set ns. fst n \<notin> keypairMap s \<and> fst n \<in> caMap s) \<longrightarrow>
            (\<exists>s1. exec s (map notify ns) = Some (Inr s1) \<and>
               calls s1 = calls s @ [TimeAfterCA] \<and>
               caReload s1 = After watcherEventCoalesceWindow \<and>
               (\<forall>read. \<exists>s2. exec s1 [Select (CaReloadFired read)] = Some (Inr s2) \<and>
                  calls s2 = calls s @ [TimeAfterCA, CallReloadCA] \<and>
                  caReload s2 = NilTimer)))"
proof (intro conjI impI)
  note inv = reachable_inv [OF assms(1)]
  {
    assume h: "keypairReload s = NilTimer \<and> (\<forall>n\<in>set ns. fst n \<in> keypairMap s)"
    let ?s1 = "s\<lparr>log := log s @ map (\<lambda>n. received (fst n) (snd n)) ns,
                 keypairReload := After watcherEventCoalesceWindow,
                 calls := calls s @ [TimeAfterKeypair]\<rparr>"
    have e: "exec s (map notify ns) = Some (Inr ?s1)"
      using burst_keypair [OF assms(2), of ns] h assms(3) by simp
    have "ready_inv ?s1" "\<not> exited ?s1" "keypairReload ?s1 \<noteq> NilTimer"
      using inv assms(2) by (simp_all add: ready_inv_def)
    from fire_keypair [OF this] e
    show "\<exists>s1. exec s (map notify ns) = Some (Inr s1) \<and>
               calls s1 = calls s @ [TimeAfterKeypair] \<and>
               keypairReload s1 = After watcherEventCoalesceWindow \<and>
               (\<forall>read. \<exists>s2. exec s1 [Select (KeypairReloadFired read)] = Some (Inr s2) \<and>
                  calls s2 = calls s @ [TimeAfterKeypair, CallReloadKeypair] \<and>
                  keypairReload s2 = NilTimer)"
      by (intro exI [of _ ?s1]) (simp del: exec.simps, blast)
  }
  {
    assume h: "caReload s = NilTimer \<and> (\<forall>n\<in>set ns. fst n \<notin> keypairMap s \<and> fst n \<in> caMap s)"
    let ?s1 = "s\<lparr>log := log s @ map (\<lambda>n. received (fst n) (snd n)) ns,
                 caReload := After watcherEventCoalesceWindow,
                 calls := calls s @ [TimeAfterCA]\<rparr>"
    have e: "exec s (map notify ns) = Some (Inr ?s1)"
      using burst_ca [OF assms(2), of ns] h assms(3) by simp
    have "ready_inv ?s1" "\<not> exited ?s1" "caReload ?s1 \<noteq> NilTimer"
      using inv assms(2) by (simp_all add: ready_inv_def)
    from fire_ca [OF this] e
    show "\<exists>s1. exec s (map notify ns) = Some (Inr s1) \<and>
               calls s1 = calls s @ [TimeAfterCA] \<and>
               caReload s1 = After watcherEventCoalesceWindow \<and>
               (\<forall>read. \<exists>s2. exec s1 [Select (CaReloadFired read)] = Some (Inr s2) \<and>
                  calls s2 = calls s @ [TimeAfterCA, CallReloadCA] \<and>
                  caReload s2 = NilTimer)"
      by (intro exI [of _ ?s1]) (simp del: exec.simps, blast)
  }
qed

theorem burst_coalesced_witness:
  "(\<exists>s1. exec (Watch example_watcher)
            (map notify [(''tls.crt'', 2), (''tls.key'', 2), (''tls.crt'', 16)]) = Some (Inr s1) \<and>
      calls s1 = [TimeAfterKeypair] \<and>
      (\<exists>s2. exec s1 [Select (KeypairReloadFired (Inr ''tls''))] = Some (Inr s2) \<and>
         calls s2 = [TimeAfterKeypair, CallReloadKeypair] \<and> keypairReload s2 = NilTimer)) \<and>
   (\<exists>s1. exec (Watch example_watcher)
            (map notify [(''ca.crt'', 2), (''ca.crt'', 16)]) = Some (Inr s1) \<and>
      calls s1 = [TimeAfterCA] \<and>
      (\<exists>s2. exec s1 [Select (CaReloadFired (Inl ''bad pem''))] = Some (Inr s2) \<and>
         calls s2 = [TimeAfterCA, CallReloadCA] \<and> caReload s2 = NilTimer))"
proof -
  let ?s = "Watch example_watcher"
  have r: "exec (Watch example_watcher) [] = Some (Inr ?s)" and x: "\<not> exited ?s"
    and c: "calls ?s = []"
    by (simp_all add: Watch_example example_loop_def)
  have k: "keypairReload ?s = NilTimer \<and>
      (\<forall>n\<in>set [(''tls.crt'', 2::nat), (''tls.key'', 2), (''tls.crt'', 16)]. fst n \<in> keypairMap ?s)"
    and a: "caReload ?s = NilTimer \<and>
      (\<forall>n\<in>set [(''ca.crt'', 2::nat), (''ca.crt'', 16)]. fst n \<notin> keypairMap ?s \<and> fst n \<in> caMap ?s)"
    by (simp_all add: Watch_example example_loop_def)
  from burst_coalesced [OF r x, of "[(''tls.crt'', 2), (''tls.key'', 2), (''tls.crt'', 16)]"] k
  have 1: "\<exists>s1. exec ?s (map notify [(''tls.crt'', 2), (''tls.key'', 2), (''tls.crt'', 16)]) = Some (Inr s1) \<and>
      calls s1 = [TimeAfterKeypair] \<and>
      (\<exists>s2. exec s1 [Select (KeypairReloadFired (Inr ''tls''))] = Some (Inr s2) \<and>
         calls s2 = [TimeAfterKeypair, CallReloadKeypair] \<and> keypairReload s2 = NilTimer)"
    unfolding c by (simp del: exec.simps) blast
  from burst_coalesced [OF r x, of "[(''ca.crt'', 2), (''ca.crt'', 16)]"] a
  have 2: "\<exists>s1. exec ?s (map notify [(''ca.crt'', 2), (''ca.crt'', 16)]) = Some (Inr s1) \<and>
      calls s1 = [TimeAfterCA] \<and>
      (\<exists>s2. exec s1 [Select (CaReloadFired (Inl ''bad pem''))] = Some (Inr s2) \<and>
         calls s2 = [TimeAfterCA, CallReloadCA] \<and> caReload s2 = NilTimer)"
    unfolding c by (simp del: exec.simps) blast
  from 1 2 show ?thesis by blast
qed

subsection \<open>A path of both roles\<close>

text \<open>
  C9. A notification for a path that is in both \<open>keypairMap\<close> and \<open>caMap\<close> is handled by
  the keypair branch only: afterwards the keypair timer is armed, by one call of
  \<open>time.After\<close> if its channel was nil and by none if it was armed already; the CA timer
  channel is what it was and \<open>time.After\<close> is not called for the CA role.
\<close>

theorem double_role_is_keypair:
  fixes s :: "'a loop_scheme"
  assumes "\<not> exited s" and "path \<in> keypairMap s" and "path \<in> caMap s"
  shows "\<exists>s'. act s (Select (FsEvent path opn)) = Some (Inr s') \<and>
           keypairReload s' \<noteq> NilTimer \<and>
           caReload s' = caReload s \<and>
           calls s' = calls s @ (if keypairReload s = NilTimer then [TimeAfterKeypair] else []) \<and>
           (keypairReload s = NilTimer \<longrightarrow> keypairReload s' = After watcherEventCoalesceWindow) \<and>
           (keypairReload s \<noteq> NilTimer \<longrightarrow> keypairReload s' = keypairReload s)"
  using assms by (simp add: step_FsEvent_keypair)

theorem double_role_is_keypair_witness:
  "\<not> exited (Watch overlap_watcher) \<and> ''tls.crt'' \<in> keypairMap (Watch overlap_watcher) \<and>
   ''tls.crt'' \<in> caMap (Watch overlap_watcher) \<and>
   (\<exists>s'. act (Watch overlap_watcher) (Select (FsEvent ''tls.crt'' 2)) = Some (Inr s') \<and>
      keypairReload s' = After watcherEventCoalesceWindow \<and> caReload s' = NilTimer \<and>
      calls s' = [TimeAfterKeypair])"
proof -
  have h: "\<not> exited (Watch overlap_watcher)" "''tls.crt'' \<in> keypairMap (Watch overlap_watcher)"
    "''tls.crt'' \<in> caMap (Watch overlap_watcher)"
    and i: "keypairReload (Watch overlap_watcher) = NilTimer" "caReload (Watch overlap_watcher) = NilTimer"
      "calls (Watch overlap_watcher) = []"
    by (simp_all add: Watch_eq overlap_watcher_def)
  from double_role_is_keypair [OF h, of 2] i h show ?thesis
    by (simp del: act.simps) blast
qed

subsection \<open>A path of no role\<close>

lemma notify_then_reload_keypair:
  fixes t :: "'a loop_scheme"
  assumes "ready_inv t" and "\<not> exited t" and "q \<in> keypairMap t"
  shows "\<exists>s3. exec t [Select (FsEvent q opn), Select (KeypairReloadFired read)] = Some (Inr s3) \<and>
           calls s3 = calls t @ (if keypairReload t = NilTimer then [TimeAfterKeypair] else []) @
                        [CallReloadKeypair]"
proof -
  let ?t2 = "if keypairReload t = NilTimer
          then t\<lparr>log := log t @ [received q opn],
                 keypairReload := After watcherEventCoalesceWindow,
                 calls := calls t @ [TimeAfterKeypair]\<rparr>
          else t\<lparr>log := log t @ [received q opn]\<rparr>"
  have a: "act t (Select (FsEvent q opn)) = Some (Inr ?t2)"
    using assms by (simp add: step_FsEvent_keypair)
  have "ready_inv ?t2" "\<not> exited ?t2" "keypairReload ?t2 \<noteq> NilTimer"
    using assms by (simp_all add: ready_inv_def)
  from fire_keypair [OF this, of read] obtain s3 where
    "exec ?t2 [Select (KeypairReloadFired read)] = Some (Inr s3)"
    "calls s3 = calls ?t2 @ [CallReloadKeypair]"
    by blast
  moreover have "exec t [Select (FsEvent q opn), Select (KeypairReloadFired read)] =
                   exec ?t2 [Select (KeypairReloadFired read)]"
    using a by (simp del: act.simps)
  ultimately show ?thesis by (intro exI [of _ s3]) simp
qed

lemma notify_then_reload_ca:
  fixes t :: "'a loop_scheme"
  assumes "ready_inv t" and "\<not> exited t" and "q \<notin> keypairMap t" and "q \<in> caMap t"
  shows "\<exists>s3. exec t [Select (FsEvent q opn), Select (CaReloadFired read)] = Some (Inr s3) \<and>
           calls s3 = calls t @ (if caReload t = NilTimer then [TimeAfterCA] else []) @
                        [CallReloadCA]"
proof -
  let ?t2 = "if caReload t = NilTimer
          then t\<lparr>log := log t @ [received q opn],
                 caReload := After watcherEventCoalesceWindow,
                 calls := calls t @ [TimeAfterCA]\<rparr>
          else t\<lparr>log := log t @ [received q opn]\<rparr>"
  have a: "act t (Select (FsEvent q opn)) = Some (Inr ?t2)"
    using assms by (simp add: step_FsEvent_ca)
  have "ready_inv ?t2" "\<not> exited ?t2" "caReload ?t2 \<noteq> NilTimer"
    using assms by (simp_all add: ready_inv_def)
  from fire_ca [OF this, of read] obtain s3 where
    "exec ?t2 [Select (CaReloadFired read)] = Some (Inr s3)"
    "calls s3 = calls ?t2 @ [CallReloadCA]"
    by blast
  moreover have "exec t [Select (FsEvent q opn), Select (CaReloadFired read)] =
                   exec ?t2 [Select (CaReloadFired read)]"
    using a by (simp del: act.simps)
  ultimately show ?thesis by (intro exI [of _ s3]) simp
qed

text \<open>
  C7. In any state the Watcher can reach with the goroutine running, a notification for
  a path in neither set is taken, adds the Debug record and the Warn record to the log,
  and changes nothing else: no timer is armed, no reload is called, the goroutine has not
  returned, and the same cases of the \<open>select\<close> can be taken as before. A later
  notification for a tracked path, followed by its timer, still calls the reload of its
  role.
\<close>

theorem unknown_path_ignored:
  assumes "exec (Watch w) pre = Some (Inr s)" and "\<not> exited s"
    and "path \<notin> keypairMap s" and "path \<notin> caMap s"
  shows "\<exists>s1. act s (Select (FsEvent path opn)) = Some (Inr s1) \<and>
           s1 = s\<lparr>log := log s @ [received path opn, unknown_file path opn]\<rparr> \<and>
           \<not> exited s1 \<and> (\<forall>e. enabled s1 e = enabled s e) \<and>
           (\<forall>q opn' read. q \<in> keypairMap s \<longrightarrow>
              (\<exists>s3. exec s1 [Select (FsEvent q opn'), Select (KeypairReloadFired read)] = Some (Inr s3) \<and>
                 count_list (calls s3) CallReloadKeypair = Suc (count_list (calls s) CallReloadKeypair))) \<and>
           (\<forall>q opn' read. q \<notin> keypairMap s \<and> q \<in> caMap s \<longrightarrow>
              (\<exists>s3. exec s1 [Select (FsEvent q opn'), Select (CaReloadFired read)] = Some (Inr s3) \<and>
                 count_list (calls s3) CallReloadCA = Suc (count_list (calls s) CallReloadCA)))"
proof -
  let ?s1 = "s\<lparr>log := log s @ [received path opn, unknown_file path opn]\<rparr>"
  note inv = reachable_inv [OF assms(1)]
  have a: "act s (Select (FsEvent path opn)) = Some (Inr ?s1)"
    using assms by (simp add: step_FsEvent_unknown)
  have x: "\<not> exited ?s1" using assms(2) by simp
  have inv1: "ready_inv ?s1" using inv by (simp add: ready_inv_def)
  have en: "enabled ?s1 e = enabled s e" for e
    by (cases e) simp_all
  have k: "\<exists>s3. exec ?s1 [Select (FsEvent q opn'), Select (KeypairReloadFired read)] = Some (Inr s3) \<and>
                 count_list (calls s3) CallReloadKeypair = Suc (count_list (calls s) CallReloadKeypair)"
    if "q \<in> keypairMap s" for q opn' read
  proof -
    from that have "q \<in> keypairMap ?s1" by simp
    from notify_then_reload_keypair [OF inv1 x this, of opn' read] obtain s3 where
      "exec ?s1 [Select (FsEvent q opn'), Select (KeypairReloadFired read)] = Some (Inr s3)"
      "calls s3 = calls ?s1 @ (if keypairReload ?s1 = NilTimer then [TimeAfterKeypair] else []) @
                        [CallReloadKeypair]"
      by blast
    then show ?thesis by (intro exI [of _ s3]) simp
  qed
  have c: "\<exists>s3. exec ?s1 [Select (FsEvent q opn'), Select (CaReloadFired read)] = Some (Inr s3) \<and>
                 count_list (calls s3) CallReloadCA = Suc (count_list (calls s) CallReloadCA)"
    if "q \<notin> keypairMap s \<and> q \<in> caMap s" for q opn' read
  proof -
    from that have "q \<notin> keypairMap ?s1" "q \<in> caMap ?s1" by simp_all
    from notify_then_reload_ca [OF inv1 x this, of opn' read] obtain s3 where
      "exec ?s1 [Select (FsEvent q opn'), Select (CaReloadFired read)] = Some (Inr s3)"
      "calls s3 = calls ?s1 @ (if caReload ?s1 = NilTimer then [TimeAfterCA] else []) @
                        [CallReloadCA]"
      by blast
    then show ?thesis by (intro exI [of _ s3]) simp
  qed
  from a x en k c show ?thesis by blast
qed

theorem unknown_path_ignored_witness:
  "\<not> exited (Watch example_watcher) \<and> ''other.pem'' \<notin> keypairMap (Watch example_watcher) \<and>
   ''other.pem'' \<notin> caMap (Watch example_watcher) \<and>
   act (Watch example_watcher) (Select (FsEvent ''other.pem'' 2)) =
     Some (Inr ((Watch example_watcher)
       \<lparr>log := [received ''other.pem'' 2, unknown_file ''other.pem'' 2]\<rparr>)) \<and>
   (\<exists>s3. exec ((Watch example_watcher)\<lparr>log := [received ''other.pem'' 2, unknown_file ''other.pem'' 2]\<rparr>)
            [Select (FsEvent ''tls.crt'' 2), Select (KeypairReloadFired (Inr ''tls''))] = Some (Inr s3) \<and>
      count_list (calls s3) CallReloadKeypair = 1)"
proof -
  let ?s = "Watch example_watcher"
  have r: "exec (Watch example_watcher) [] = Some (Inr ?s)" by simp
  have h: "\<not> exited ?s" "''other.pem'' \<notin> keypairMap ?s" "''other.pem'' \<notin> caMap ?s"
    and k: "''tls.crt'' \<in> keypairMap ?s" and l: "log ?s = []" "calls ?s = []"
    by (simp_all add: Watch_example example_loop_def)
  from unknown_path_ignored [OF r h, of 2] k h show ?thesis
    unfolding l by (simp del: act.simps exec.simps) 
qed

subsection \<open>Stop\<close>

lemma exec_Watch_stop:
  assumes "closes (stop w) = 0" and "closeCalls (fswatcher w) = 0"
    and "exec (Watch w) as = Some r"
  shows "\<exists>s. r = Inr s \<and> ready_inv s \<and>
           closes (stop s) = (if CallStop \<in> set as then 1 else 0) \<and>
           closeCalls (fswatcher s) = (if Select StopObserved \<in> set as then 1 else 0) \<and>
           exited s = (Select StopObserved \<in> set as) \<and>
           (Select StopObserved \<in> set as \<longrightarrow> CallStop \<in> set as)"
  using assms(3)
proof (induction as arbitrary: r rule: rev_induct)
  case Nil
  then have "r = Inr (Watch w)" by simp
  moreover have "closes (stop (Watch w)) = 0" "closeCalls (fswatcher (Watch w)) = 0"
    "\<not> exited (Watch w)"
    using assms(1,2) by (simp_all add: Watch_eq)
  ultimately show ?case using Watch_inv [of w] by simp
next
  case (snoc a as)
  from snoc.prems show ?case
  proof (cases rule: exec_snoc)
    case (panicked p)
    with snoc.IH [OF panicked(1)] show ?thesis by simp
  next
    case (stepped s1)
    from snoc.IH [OF stepped(1)] have inv1: "ready_inv s1"
      and c1: "closes (stop s1) = (if CallStop \<in> set as then 1 else 0)"
      and f1: "closeCalls (fswatcher s1) = (if Select StopObserved \<in> set as then 1 else 0)"
      and x1: "exited s1 = (Select StopObserved \<in> set as)"
      and o1: "Select StopObserved \<in> set as \<longrightarrow> CallStop \<in> set as"
      by blast+
    from act_inv [OF inv1 stepped(2)] obtain s' where r: "r = Inr s'" and inv': "ready_inv s'"
      by blast
    from stepped(2) r have a: "act s1 a = Some (Inr s')" by simp
    note st = act_stop [OF inv1 a]
    have so: "a = Select StopObserved \<Longrightarrow> CallStop \<in> set as \<and> Select StopObserved \<notin> set as"
      using st(4) c1 x1 by (auto simp: is_closed_def split: if_splits)
    have "closes (stop s') = (if CallStop \<in> set (as @ [a]) then 1 else 0)"
      using st(1) c1 by auto
    moreover have "closeCalls (fswatcher s') = (if Select StopObserved \<in> set (as @ [a]) then 1 else 0)"
      using st(2) f1 so by auto
    moreover have "exited s' = (Select StopObserved \<in> set (as @ [a]))"
      using st(3) x1 by auto
    moreover have "Select StopObserved \<in> set (as @ [a]) \<longrightarrow> CallStop \<in> set (as @ [a])"
      using o1 so by auto
    ultimately show ?thesis using r inv' by blast
  qed
qed

text \<open>
  Calls of \<open>Stop\<close> that run one at a time. For a Watcher as the constructors make it (stop
  channel open, file event source not closed), no run panics, whatever the number of
  calls. The stop channel is closed exactly once if \<open>Stop\<close> has been called at least once,
  and is not closed if \<open>Stop\<close> has not been called. The file event source is closed
  exactly once, when the goroutine takes its stop case and returns; that case can be
  taken as soon as \<open>Stop\<close> has been called and at most once; the source is not closed
  before.
\<close>

lemma stop_once:
  assumes "closes (stop w) = 0" and "closeCalls (fswatcher w) = 0"
    and "exec (Watch w) as = Some r"
  shows "\<exists>s. r = Inr s \<and>
           closes (stop s) = (if CallStop \<in> set as then 1 else 0) \<and>
           closeCalls (fswatcher s) = (if Select StopObserved \<in> set as then 1 else 0) \<and>
           exited s = (Select StopObserved \<in> set as) \<and>
           (Select StopObserved \<in> set as \<longrightarrow> CallStop \<in> set as) \<and>
           enabled s StopObserved = (CallStop \<in> set as \<and> Select StopObserved \<notin> set as) \<and>
           (\<exists>s'. Stop s = Inr s' \<and> closes (stop s') = 1)"
proof -
  from exec_Watch_stop [OF assms] obtain s where s: "r = Inr s"
    "closes (stop s) = (if CallStop \<in> set as then 1 else 0)"
    "closeCalls (fswatcher s) = (if Select StopObserved \<in> set as then 1 else 0)"
    "exited s = (Select StopObserved \<in> set as)"
    "Select StopObserved \<in> set as \<longrightarrow> CallStop \<in> set as"
    by blast
  have "enabled s StopObserved = (CallStop \<in> set as \<and> Select StopObserved \<notin> set as)"
    using s(2,4) by (auto simp: is_closed_def)
  moreover have "\<exists>s'. Stop s = Inr s' \<and> closes (stop s') = 1"
    using s(2) by (simp add: Stop_eq is_closed_def)
  ultimately show ?thesis using s by blast
qed

lemma stop_once_example:
  "closes (stop example_watcher) = 0 \<and> closeCalls (fswatcher example_watcher) = 0 \<and>
   (\<exists>s. exec (Watch example_watcher)
           [CallStop, Select (FsEvent ''tls.crt'' 2), CallStop, Select StopObserved, CallStop] =
           Some (Inr s) \<and>
      closes (stop s) = 1 \<and> closeCalls (fswatcher s) = 1 \<and> exited s)"
proof -
  let ?as = "[CallStop, Select (FsEvent ''tls.crt'' 2), CallStop, Select StopObserved, CallStop]"
  have h: "closes (stop example_watcher) = 0" "closeCalls (fswatcher example_watcher) = 0"
    by (simp_all add: example_watcher_def make_chan_def)
  obtain r where e: "exec (Watch example_watcher) ?as = Some r"
    by (simp add: eval_simps)
  from stop_once [OF h e] obtain s where "r = Inr s"
    "closes (stop s) = (if CallStop \<in> set ?as then 1 else 0)"
    "closeCalls (fswatcher s) = (if Select StopObserved \<in> set ?as then 1 else 0)"
    "exited s = (Select StopObserved \<in> set ?as)"
    by blast
  with e h show ?thesis by simp
qed

text \<open>
  Calls of \<open>Stop\<close> that overlap. One call alone is \<open>Stop\<close>, and two calls in turn both
  return. When two callers have both passed the \<open>select\<close> on an open stop channel, the
  first \<open>close\<close> returns and the second panics.
\<close>

lemma Stop_calls_alone:
  "Stop_calls w AtSelect b [CallerA, CallerA] =
     (case Stop w of Inl p \<Rightarrow> Inl p | Inr w' \<Rightarrow> Inr (w', Returned, b))"
  by (simp add: Stop_def split: sum.splits)

lemma Stop_calls_in_turn:
  "\<exists>w'. Stop_calls w AtSelect AtSelect [CallerA, CallerA, CallerB, CallerB] =
          Inr (w', Returned, Returned)"
  by (simp add: Stop_select_def Stop_close_def close_chan_def is_closed_def)

lemma Stop_not_atomic:
  assumes "Stop_select w0"
  shows "\<exists>w1. Stop_close w0 = Inr w1 \<and> Stop_close w1 = Inl CloseOfClosedChannel"
  using assms by (simp add: Stop_select_def Stop_close_def close_chan_def is_closed_def)

lemma Stop_calls_overlapping:
  "\<not> is_closed (stop w) \<Longrightarrow>
   Stop_calls w AtSelect AtSelect [CallerA, CallerB, CallerA, CallerB] = Inl CloseOfClosedChannel"
  by (simp add: Stop_select_def Stop_close_def close_chan_def is_closed_def)

text \<open>
  C3. \<open>Stop\<close> is idempotent but not thread-safe. On the running example Watcher, whose stop
  channel is open, two calls of \<open>Stop\<close> that overlap so that both run the \<open>select\<close>
  before either runs the \<open>close\<close> end in the panic of closing a closed channel: the
  \<open>select\<close> and the \<open>close\<close> are two steps with nothing to keep a second caller out
  between them, where \<open>markReady\<close> closes its channel under a \<open>sync.Once\<close>.
\<close>

theorem Stop_overlapping_panics:
  "\<not> is_closed (stop (Watch example_watcher)) \<and>
   Stop_calls (Watch example_watcher) AtSelect AtSelect [CallerA, CallerB, CallerA, CallerB] =
     Inl CloseOfClosedChannel"
  by (simp add: Watch_example example_loop_def make_chan_def Stop_select_def Stop_close_def
      close_chan_def is_closed_def)

subsection \<open>The two path sets\<close>

text \<open>
  C6, as amended. \<open>Watch\<close> builds the two path sets once, and no run changes them; no
  run panics, and while the goroutine runs every notification is taken, whatever its
  path, so a path configured for both roles does not crash the loop. Every path the file
  event source is asked to watch is in at least one of the two sets. It is in exactly one
  of them when neither the certificate file nor the key file is also listed as a CA file.
\<close>

theorem classification:
  assumes "newFsWatcher failure (caFiles w) (certFile w) (privkeyFile w) = Inr fsw"
  shows "(\<forall>p\<in>set (trackFiles fsw). p \<in> keypairMap (Watch w) \<or> p \<in> caMap (Watch w)) \<and>
         (certFile w \<notin> set (caFiles w) \<and> privkeyFile w \<notin> set (caFiles w) \<longrightarrow>
            (\<forall>p\<in>set (trackFiles fsw). (p \<in> keypairMap (Watch w)) = (p \<notin> caMap (Watch w)))) \<and>
         (\<forall>as r. exec (Watch w) as = Some r \<longrightarrow>
            (\<exists>s. r = Inr s \<and> keypairMap s = keypairMap (Watch w) \<and> caMap s = caMap (Watch w) \<and>
               (\<forall>p opn. \<not> exited s \<longrightarrow> (\<exists>s'. act s (Select (FsEvent p opn)) = Some (Inr s')))))"
proof (intro conjI allI impI)
  from assms have t: "trackFiles fsw = (if certFile w \<noteq> [] then [certFile w] else []) @
                         (if privkeyFile w \<noteq> [] then [privkeyFile w] else []) @
                         filter (\<lambda>path. path \<noteq> []) (caFiles w)"
    by (auto simp: newFsWatcher_eq split: option.splits)
  show "\<forall>p\<in>set (trackFiles fsw). p \<in> keypairMap (Watch w) \<or> p \<in> caMap (Watch w)"
    unfolding t by (auto simp: Watch_eq)
  show "\<forall>p\<in>set (trackFiles fsw). (p \<in> keypairMap (Watch w)) = (p \<notin> caMap (Watch w))"
    if "certFile w \<notin> set (caFiles w) \<and> privkeyFile w \<notin> set (caFiles w)"
    using that unfolding t by (auto simp: Watch_eq)
next
  fix as r
  assume e: "exec (Watch w) as = Some r"
  from exec_inv [OF Watch_inv e] obtain s where s: "r = Inr s" "ready_inv s"
    "keypairMap s = keypairMap (Watch w)" "caMap s = caMap (Watch w)"
    by blast
  have "\<exists>s'. act s (Select (FsEvent p opn)) = Some (Inr s')" if "\<not> exited s" for p opn
    using that by (simp add: step_FsEvent)
  with s show "\<exists>s. r = Inr s \<and> keypairMap s = keypairMap (Watch w) \<and> caMap s = caMap (Watch w) \<and>
               (\<forall>p opn. \<not> exited s \<longrightarrow> (\<exists>s'. act s (Select (FsEvent p opn)) = Some (Inr s')))"
    by blast
qed

theorem classification_witness:
  "newFsWatcher None (caFiles example_watcher) (certFile example_watcher)
     (privkeyFile example_watcher) = Inr (fswatcher example_watcher) \<and>
   certFile example_watcher \<notin> set (caFiles example_watcher) \<and>
   privkeyFile example_watcher \<notin> set (caFiles example_watcher) \<and>
   list_all (\<lambda>p. (p \<in> keypairMap (Watch example_watcher)) = (p \<notin> caMap (Watch example_watcher)))
     (trackFiles (fswatcher example_watcher)) \<and>
   (\<exists>s. exec (Watch example_watcher) [Select (FsEvent ''tls.crt'' 2)] = Some (Inr s) \<and>
      keypairMap s = keypairMap (Watch example_watcher) \<and>
      caMap s = caMap (Watch example_watcher))"
proof -
  have n: "newFsWatcher None (caFiles example_watcher) (certFile example_watcher)
     (privkeyFile example_watcher) = Inr (fswatcher example_watcher)"
    and d: "certFile example_watcher \<notin> set (caFiles example_watcher) \<and>
      privkeyFile example_watcher \<notin> set (caFiles example_watcher)"
    by (simp_all add: newFsWatcher_eq example_watcher_def)
  obtain r where e: "exec (Watch example_watcher) [Select (FsEvent ''tls.crt'' 2)] = Some r"
    by (simp add: eval_simps)
  from classification [OF n] d e n show ?thesis
    unfolding list_all_iff by blast
qed

text \<open>
  The statement without the amendment fails when the certificate file is also listed as
  a CA file: the path is watched and is in both sets.
\<close>

theorem classification_counterexample:
  "newFsWatcher None (caFiles overlap_watcher) (certFile overlap_watcher)
     (privkeyFile overlap_watcher) = Inr (fswatcher overlap_watcher) \<and>
   ''tls.crt'' \<in> set (trackFiles (fswatcher overlap_watcher)) \<and>
   ''tls.crt'' \<in> keypairMap (Watch overlap_watcher) \<and>
   ''tls.crt'' \<in> caMap (Watch overlap_watcher)"
  by (simp add: newFsWatcher_eq overlap_watcher_def Watch_eq)

subsection \<open>FutureWatcher\<close>

text \<open>
  C4. When \<open>FutureWatcher\<close> can construct the Watcher and both eager reloads succeed, its
  goroutine sends the Watcher on the result channel and closes the channel without
  waiting in its \<open>select\<close>: in the state \<open>FutureWatcher\<close> gives, the send and the close
  are done and the goroutine is not waiting, the Watcher is ready with what the two
  reloads read, and the loop has taken no notification: it has made no call, the ready
  channel is still open.
\<close>

theorem eager_delivery:
  assumes "invalidArgs env = None" and "fswatcherFailure env = None"
    and "readKeypair env = Inr kp" and "readCA env = Inr pool"
  shows "\<exists>f. FutureWatcher env log0 caFiles' certFile' privkeyFile' = Inr f \<and>
           res f = [SendWatcher, CloseRes] \<and> \<not> waiting f \<and>
           Ready (watcher f) \<and> keypair (watcher f) = Some kp \<and>
           caCertPool (watcher f) = Some pool \<and>
           calls (watcher f) = [] \<and> \<not> is_closed (ready (watcher f)) \<and>
           \<not> exited (watcher f) \<and> \<not> await_enabled f ReadyCase \<and> \<not> await_enabled f StopCase"
  using assms
  by (simp add: FutureWatcher_eq newFsWatcher_eq Let_def Watch_eq Ready_def is_closed_def)

theorem eager_delivery_witness:
  "invalidArgs loaded_env = None \<and> fswatcherFailure loaded_env = None \<and>
   readKeypair loaded_env = Inr ''tls'' \<and> readCA loaded_env = Inr [''ca''] \<and>
   (\<exists>f. FutureWatcher loaded_env [] [''ca.crt''] ''tls.crt'' ''tls.key'' = Inr f \<and>
      res f = [SendWatcher, CloseRes] \<and> \<not> waiting f \<and> Ready (watcher f) \<and>
      calls (watcher f) = [])"
proof -
  have h: "invalidArgs loaded_env = None" "fswatcherFailure loaded_env = None"
    "readKeypair loaded_env = Inr ''tls''" "readCA loaded_env = Inr [''ca'']"
    by (simp_all add: loaded_env_def)
  from eager_delivery [OF h, of "[]" "[''ca.crt'']" "''tls.crt''" "''tls.key''"] h
  show ?thesis by blast
qed

lemma fexec_OfWatcher:
  "fexec f (map OfWatcher as) = Some (Inr f') \<Longrightarrow> res f' = res f \<and> waiting f' = waiting f"
proof (induction as arbitrary: f)
  case Nil
  then show ?case by simp
next
  case (Cons a as)
  from Cons.prems obtain l where "act (watcher f) a = Some (Inr l)"
    and "fexec (f\<lparr>watcher := l\<rparr>) (map OfWatcher as) = Some (Inr f')"
    by (auto simp del: act.simps split: option.splits sum.splits)
  from Cons.IH [OF this(2)] show ?case by simp
qed

text \<open>
  C8. When an eager reload of \<open>FutureWatcher\<close> fails, its goroutine waits and has sent
  nothing. Whatever the Watcher does meanwhile, if the stop channel is closed while the
  ready channel is still open, the ready case of the goroutine's \<open>select\<close> cannot be
  taken, the stop case can, and after it the only operation on the result channel is its
  close: no Watcher was sent.
\<close>

theorem stop_before_ready:
  assumes "FutureWatcher env log0 caFiles' certFile' privkeyFile' = Inr f"
    and "isl (readKeypair env) \<or> isl (readCA env)"
    and "fexec f (map OfWatcher as) = Some (Inr f')"
    and "is_closed (stop (watcher f'))" and "\<not> is_closed (ready (watcher f'))"
  shows "fexec f' [Await ReadyCase] = None \<and>
         (\<exists>f''. fexec f' [Await StopCase] = Some (Inr f'') \<and> res f'' = [CloseRes] \<and>
            \<not> waiting f'')"
proof -
  from assms(1,2) have "res f = []" "waiting f"
    by (auto simp: FutureWatcher_eq Let_def split: option.splits sum.splits)
  with fexec_OfWatcher [OF assms(3)] have "res f' = []" "waiting f'" by simp_all
  with assms(4,5) show ?thesis by simp
qed

theorem stop_before_ready_witness:
  "FutureWatcher half_env [] [''ca.crt''] ''tls.crt'' ''tls.key'' =
     Inr \<lparr>watcher = logf Debug ''Waiting on fsnotify update to be ready'' [] (Watch half_ready_watcher),
          res = [], waiting = True\<rparr> \<and>
   isl (readCA half_env) \<and>
   fexec \<lparr>watcher = logf Debug ''Waiting on fsnotify update to be ready'' [] (Watch half_ready_watcher),
          res = [], waiting = True\<rparr> (map OfWatcher [CallStop]) = Some (Inr stopped_future) \<and>
   is_closed (stop (watcher stopped_future)) \<and> \<not> is_closed (ready (watcher stopped_future)) \<and>
   fexec stopped_future [Await ReadyCase] = None \<and>
   (\<exists>f''. fexec stopped_future [Await StopCase] = Some (Inr f'') \<and> res f'' = [CloseRes])"
proof -
  let ?f = "\<lparr>watcher = logf Debug ''Waiting on fsnotify update to be ready'' [] (Watch half_ready_watcher),
          res = [], waiting = True\<rparr>"
  note c = FutureWatcher_half_ready
  have i: "isl (readKeypair half_env) \<or> isl (readCA half_env)" and i': "isl (readCA half_env)"
    by (simp_all add: half_env_def)
  have e: "fexec ?f (map OfWatcher [CallStop]) = Some (Inr stopped_future)"
    by (simp add: stopped_future_def Stop_eq logf_def Watch_eq half_ready_watcher_def
        example_watcher_def is_closed_def make_chan_def)
  have s: "is_closed (stop (watcher stopped_future))" "\<not> is_closed (ready (watcher stopped_future))"
    by (simp_all add: stopped_future_def is_closed_def Watch_eq)
  from stop_before_ready [OF c i e s] c i' e s show ?thesis by blast
qed

subsection \<open>NewWatcher\<close>

text \<open>
  C10. \<open>NewWatcher\<close> returns a Watcher only if the constructor of the FileReloader has
  loaded both the keypair and the CA files; if one of the loads fails it returns an error
  and no Watcher. The Watcher it returns is the state \<open>Watch\<close> makes of the loaded store:
  no notification taken, no timer armed, no call made, and \<open>Ready\<close> holds.
\<close>

theorem NewWatcher_ready:
  "(NewWatcher env log0 caFiles' certFile' privkeyFile' = Inr l \<longrightarrow>
      (\<exists>kp pool fsw. readKeypair env = Inr kp \<and> readCA env = Inr pool \<and>
         l = Watch \<lparr>caFiles = caFiles', certFile = certFile', privkeyFile = privkeyFile',
                    keypair = Some kp, caCertPool = Some pool, log = log0,
                    fswatcher = fsw, stop = make_chan\<rparr>) \<and>
      Ready l \<and> calls l = [] \<and> log l = log0 \<and> \<not> exited l \<and>
      keypairReload l = NilTimer \<and> caReload l = NilTimer) \<and>
   (isl (readKeypair env) \<or> isl (readCA env) \<longrightarrow>
      isl (NewWatcher env log0 caFiles' certFile' privkeyFile'))"
proof -
  have "NewWatcher env log0 caFiles' certFile' privkeyFile' =
          (case invalidArgs env of
             Some err \<Rightarrow> Inl err
           | None \<Rightarrow>
               (case readKeypair env of
                  Inl err \<Rightarrow> Inl err
                | Inr kp \<Rightarrow>
                    (case readCA env of
                       Inl err \<Rightarrow> Inl err
                     | Inr pool \<Rightarrow>
                         (case newFsWatcher (fswatcherFailure env) caFiles' certFile' privkeyFile' of
                            Inl err \<Rightarrow> Inl err
                          | Inr fsw \<Rightarrow>
                              Inr (Watch \<lparr>caFiles = caFiles', certFile = certFile',
                                     privkeyFile = privkeyFile', keypair = Some kp,
                                     caCertPool = Some pool, log = log0,
                                     fswatcher = fsw, stop = make_chan\<rparr>)))))"
    by (simp add: NewWatcher_def NewFileReloaderReady_def NewFileReloader_def ReloadKeypair_def
        ReloadCA_def FileReloader.defs Watcher.defs split: option.splits sum.splits)
  then show ?thesis
    by (auto simp: Watch_eq Ready_def split: option.splits sum.splits)
qed

theorem NewWatcher_ready_witness:
  "NewWatcher loaded_env [] [''ca.crt''] ''tls.crt'' ''tls.key'' = Inr (Watch loaded_watcher) \<and>
   Ready (Watch loaded_watcher) \<and> calls (Watch loaded_watcher) = [] \<and>
   isl (readCA half_env) \<and>
   isl (NewWatcher half_env [] [''ca.crt''] ''tls.crt'' ''tls.key'')"
proof -
  note n = NewWatcher_loaded
  have i: "isl (readKeypair half_env) \<or> isl (readCA half_env)" and i': "isl (readCA half_env)"
    by (simp_all add: half_env_def)
  from NewWatcher_ready [of loaded_env "[]" "[''ca.crt'']" "''tls.crt''" "''tls.key''" "Watch loaded_watcher"]
    NewWatcher_ready [of half_env "[]" "[''ca.crt'']" "''tls.crt''" "''tls.key''" "Watch loaded_watcher"]
    n i i'
  show ?thesis by blast
qed

end
